theory Spec2Isabelle
  imports Complex_Main "HOL-Library.Multiset"
begin

section \<open>Strings, exceptions and printing\<close>

text \<open>
  Python strings are modelled as \<open>string\<close>: lists of 8-bit characters, which stand
  for the code points below 256. \<open>str.lower\<close> replaces each of the letters A to Z by
  its lower-case letter and leaves every other character alone. A raised exception is
  the left summand of a sum type and carries the text of \<open>str(e)\<close>.
\<close>

type_synonym 'a raises = "string + 'a"

definition ascii_uppercase :: string where
  "ascii_uppercase = ''ABCDEFGHIJKLMNOPQRSTUVWXYZ''"

definition ascii_lowercase :: string where
  "ascii_lowercase = ''abcdefghijklmnopqrstuvwxyz''"

definition lower_char :: "char \<Rightarrow> char" where
  "lower_char c =
     (case map_of (zip ascii_uppercase ascii_lowercase) c of Some d \<Rightarrow> d | None \<Rightarrow> c)"

definition lower :: "string \<Rightarrow> string" where
  "lower s = map lower_char s"

text \<open>Decimal digits of a natural number, for the numbers printed in messages.\<close>

fun str_nat :: "nat \<Rightarrow> string" where
  "str_nat n =
     (if n < 10 then [''0123456789'' ! n]
      else str_nat (n div 10) @ [''0123456789'' ! (n mod 10)])"

declare str_nat.simps [simp del]

text \<open>
  \<open>print\<close> writes to the standard output of the process and raises when that fails, for
  instance when the output's encoding has no code for a character of the text. Whether
  it does is a matter of the world: a printer answers, for a text, \<open>None\<close> when the text
  is written and \<open>Some e\<close> when \<open>print\<close> raises the exception \<open>e\<close>.
\<close>

type_synonym printer = "string \<Rightarrow> string option"

definition py_print :: "printer \<Rightarrow> string \<Rightarrow> unit raises" where
  "py_print pr text = (case pr text of Some e \<Rightarrow> Inl e | None \<Rightarrow> Inr ())"

section \<open>image_pipeline/image_pipeline.py\<close>

text \<open>
  The detector, the two classifiers and the imaging library are external: they are the
  fields of the pipeline object, each one a function that may raise. \<open>Image_open\<close>
  is \<open>Image.open(path).convert('RGB')\<close>, \<open>crop\<close> is \<open>Image.crop\<close>, and
  \<open>width\<close>, \<open>height\<close> read the size of a cropped region. A detector box holds the
  four corner coordinates and the confidence as the detector reports them.
\<close>

record yolo_box =
  xyxy :: "real \<times> real \<times> real \<times> real"
  conf :: real

record detected =
  bbox :: "int \<times> int \<times> int \<times> int"
  confidence :: real

record face = detected +
  gender :: string
  age_group :: string

record ('img, 'crop) ImagePipeline =
  face_detector :: "string \<Rightarrow> yolo_box list raises"
  gender_model :: "'crop \<Rightarrow> string raises"
  age_model :: "'crop \<Rightarrow> string raises"
  Image_open :: "string \<Rightarrow> 'img raises"
  crop :: "'img \<Rightarrow> int \<times> int \<times> int \<times> int \<Rightarrow> 'crop raises"
  width :: "'crop \<Rightarrow> int"
  height :: "'crop \<Rightarrow> int"

text \<open>Python's \<open>int(x)\<close> on a float truncates towards zero.\<close>

definition py_int :: "real \<Rightarrow> int" where
  "py_int x = (if 0 \<le> x then \<lfloor>x\<rfloor> else \<lceil>x\<rceil>)"

definition age_mapping :: "string \<rightharpoonup> string" where
  "age_mapping =
     [''0-2'' \<mapsto> ''10s'',
      ''3-9'' \<mapsto> ''10s'',
      ''10-19'' \<mapsto> ''10s'',
      ''20-29'' \<mapsto> ''20s'',
      ''30-39'' \<mapsto> ''30s'',
      ''40-49'' \<mapsto> ''40_plus'',
      ''50-59'' \<mapsto> ''40_plus'',
      ''60-69'' \<mapsto> ''40_plus'',
      ''more than 70'' \<mapsto> ''40_plus'']"

definition map_age_to_group :: "string \<Rightarrow> string" where
  "map_age_to_group age_label =
     (case age_mapping age_label of Some g \<Rightarrow> g | None \<Rightarrow> ''40_plus'')"

text \<open>\<open>detect_faces\<close> prints the number of raw detections before it converts the boxes.\<close>

definition detect_faces ::
  "printer \<Rightarrow> ('img, 'crop) ImagePipeline \<Rightarrow> string \<Rightarrow> detected list raises" where
  "detect_faces pr self image_path =
     (case face_detector self image_path of
        Inl e \<Rightarrow> Inl e
      | Inr boxes \<Rightarrow>
          (case py_print pr (''    [DEBUG] Raw YOLO detections: '' @ str_nat (length boxes)) of
             Inl e \<Rightarrow> Inl e
           | Inr u \<Rightarrow>
               Inr (map (\<lambda>box. case xyxy box of (x1, y1, x2, y2) \<Rightarrow>
                      \<lparr>bbox = (py_int x1, py_int y1, py_int x2, py_int y2),
                       confidence = conf box\<rparr>) boxes)))"

definition classify_gender :: "('img, 'crop) ImagePipeline \<Rightarrow> 'crop \<Rightarrow> string raises" where
  "classify_gender self face_image = gender_model self face_image"

definition classify_age :: "('img, 'crop) ImagePipeline \<Rightarrow> 'crop \<Rightarrow> string raises" where
  "classify_age self face_image =
     (case age_model self face_image of
        Inl e \<Rightarrow> Inl e
      | Inr age_label \<Rightarrow> Inr (map_age_to_group age_label))"

text \<open>
  The loop of \<open>process_image\<close> over the detected faces, with \<open>results\<close> and
  \<open>skipped_small\<close> as its accumulators. A crop narrower or shorter than 10 pixels is
  counted as skipped and passed over; an exception of the imaging library or of a
  classifier leaves the loop.
\<close>

fun classify_faces ::
  "('img, 'crop) ImagePipeline \<Rightarrow> 'img \<Rightarrow> detected list \<Rightarrow> face list \<Rightarrow> nat \<Rightarrow>
     (face list \<times> nat) raises" where
  "classify_faces self original_image [] results skipped_small = Inr (results, skipped_small)"
| "classify_faces self original_image (d # ds) results skipped_small =
     (case crop self original_image (bbox d) of
        Inl e \<Rightarrow> Inl e
      | Inr face_crop \<Rightarrow>
          if width self face_crop < 10 \<or> height self face_crop < 10
          then classify_faces self original_image ds results (skipped_small + 1)
          else (case classify_gender self face_crop of
                  Inl e \<Rightarrow> Inl e
                | Inr g \<Rightarrow>
                    (case classify_age self face_crop of
                       Inl e \<Rightarrow> Inl e
                     | Inr a \<Rightarrow>
                         classify_faces self original_image ds
                           (results @ [\<lparr>bbox = bbox d, confidence = confidence d,
                                        gender = g, age_group = a\<rparr>])
                           skipped_small)))"

text \<open>After the loop, \<open>process_image\<close> prints the number of skipped faces when there are any.\<close>

definition process_image ::
  "printer \<Rightarrow> ('img, 'crop) ImagePipeline \<Rightarrow> string \<Rightarrow> face list raises" where
  "process_image pr self image_path =
     (case detect_faces pr self image_path of
        Inl e \<Rightarrow> Inl e
      | Inr faces \<Rightarrow>
          if faces = [] then Inr []
          else (case Image_open self image_path of
                  Inl e \<Rightarrow> Inl e
                | Inr original_image \<Rightarrow>
                    (case classify_faces self original_image faces [] 0 of
                       Inl e \<Rightarrow> Inl e
                     | Inr (results, skipped_small) \<Rightarrow>
                         if 0 < skipped_small
                         then (case py_print pr (''    [DEBUG] Skipped '' @ str_nat skipped_small @
                                       '' faces (too small < 10x10)'') of
                                 Inl e \<Rightarrow> Inl e
                               | Inr u \<Rightarrow> Inr results)
                         else Inr results)))"

section \<open>backend/services/pipeline_service.py\<close>

text \<open>
  The aggregated result is the dictionary of \<open>analyze_images\<close>: the key
  \<open>total_faces\<close> and the two inner dictionaries under the keys \<open>gender\<close> and
  \<open>age_group\<close>, here \<open>gender_counts\<close> and \<open>age_group_counts\<close>.
\<close>

record aggregated =
  total_faces :: int
  gender_counts :: "string \<rightharpoonup> int"
  age_group_counts :: "string \<rightharpoonup> int"

definition new_aggregated :: aggregated where
  "new_aggregated =
     \<lparr>total_faces = 0,
      gender_counts = [''male'' \<mapsto> 0, ''female'' \<mapsto> 0],
      age_group_counts = [''10s'' \<mapsto> 0, ''20s'' \<mapsto> 0, ''30s'' \<mapsto> 0, ''40_plus'' \<mapsto> 0]\<rparr>"

text \<open>The body of the loop over the faces of one image.\<close>

definition count_face :: "aggregated \<Rightarrow> face \<Rightarrow> aggregated" where
  "count_face agg f =
     (let agg1 = agg\<lparr>total_faces := total_faces agg + 1\<rparr>;
          g = lower (gender f);
          agg2 = (case gender_counts agg1 g of
                    None \<Rightarrow> agg1
                  | Some n \<Rightarrow> agg1\<lparr>gender_counts := (gender_counts agg1)(g \<mapsto> n + 1)\<rparr>);
          a = age_group f
      in case age_group_counts agg2 a of
           None \<Rightarrow> agg2
         | Some n \<Rightarrow> agg2\<lparr>age_group_counts := (age_group_counts agg2)(a \<mapsto> n + 1)\<rparr>)"

definition count_faces :: "aggregated \<Rightarrow> face list \<Rightarrow> aggregated" where
  "count_faces agg face_results = foldl count_face agg face_results"

text \<open>
  The service keeps the pipeline it has loaded (\<open>_pipeline\<close>, here
  \<open>loaded_pipeline\<close>). The world outside the service is \<open>os.path.exists\<close>, the
  standard output, and the constructor \<open>ImagePipeline(device)\<close>: with all it loads
  and prints, the constructor either returns the pipeline or raises. The world answers
  the same question the same way each time it is asked.
\<close>

record ('img, 'crop) PipelineService =
  device :: string
  loaded_pipeline :: "('img, 'crop) ImagePipeline option"

record ('img, 'crop) world =
  path_exists :: "string \<Rightarrow> bool"
  print_error :: printer
  ImagePipeline_init :: "string \<Rightarrow> ('img, 'crop) ImagePipeline raises"

text \<open>
  The property \<open>pipeline\<close>: when no pipeline is stored it prints a notice, calls the
  constructor and stores what the constructor returns.
\<close>

definition pipeline ::
  "('img, 'crop) world \<Rightarrow> ('img, 'crop) PipelineService \<Rightarrow>
     ('img, 'crop) ImagePipeline raises \<times> ('img, 'crop) PipelineService" where
  "pipeline env self =
     (case loaded_pipeline self of
        Some p \<Rightarrow> (Inr p, self)
      | None \<Rightarrow>
          (case py_print (print_error env)
                  ''Initializing image pipeline (this may take a moment)...'' of
             Inl e \<Rightarrow> (Inl e, self)
           | Inr u \<Rightarrow>
               (case ImagePipeline_init env (device self) of
                  Inl e \<Rightarrow> (Inl e, self)
                | Inr p \<Rightarrow> (Inr p, self\<lparr>loaded_pipeline := Some p\<rparr>))))"

text \<open>
  The loop of \<open>analyze_images\<close> over the image paths. The warning for a missing file is
  printed outside the \<open>try\<close>. The access to the pipeline and the call of
  \<open>process_image\<close> are inside it; its handler prints the exception and the loop goes
  on with the next path. An exception raised by the warning, or by the handler's own
  \<open>print\<close>, leaves \<open>analyze_images\<close>.
\<close>

definition except_handler ::
  "('img, 'crop) world \<Rightarrow> string \<Rightarrow> string \<Rightarrow> unit raises" where
  "except_handler env img_path e =
     py_print (print_error env) (''Error processing '' @ img_path @ '': '' @ e)"

fun analyze_loop ::
  "('img, 'crop) world \<Rightarrow> ('img, 'crop) PipelineService \<Rightarrow> aggregated \<Rightarrow> string list \<Rightarrow>
     aggregated raises \<times> ('img, 'crop) PipelineService" where
  "analyze_loop env self agg [] = (Inr agg, self)"
| "analyze_loop env self agg (img_path # rest) =
     (if \<not> path_exists env img_path
      then (case py_print (print_error env) (''Warning: Image not found: '' @ img_path) of
              Inl e \<Rightarrow> (Inl e, self)
            | Inr u \<Rightarrow> analyze_loop env self agg rest)
      else (case pipeline env self of
              (Inl e, self') \<Rightarrow>
                (case except_handler env img_path e of
                   Inl e' \<Rightarrow> (Inl e', self')
                 | Inr u \<Rightarrow> analyze_loop env self' agg rest)
            | (Inr p, self') \<Rightarrow>
                (case process_image (print_error env) p img_path of
                   Inl e \<Rightarrow>
                     (case except_handler env img_path e of
                        Inl e' \<Rightarrow> (Inl e', self')
                      | Inr u \<Rightarrow> analyze_loop env self' agg rest)
                 | Inr face_results \<Rightarrow>
                     analyze_loop env self' (count_faces agg face_results) rest)))"

definition analyze_images ::
  "('img, 'crop) world \<Rightarrow> ('img, 'crop) PipelineService \<Rightarrow> string list \<Rightarrow>
     aggregated raises \<times> ('img, 'crop) PipelineService" where
  "analyze_images env self image_paths = analyze_loop env self new_aggregated image_paths"

section \<open>backend/database.py\<close>

text \<open>
  A row of the table \<open>analyses\<close>, without its numeric key. The text column
  \<open>json_result\<close> holds one of three JSON objects: the empty object written at upload,
  the dumped aggregated result, or \<open>{"error": ...}\<close>. The column \<open>image_paths\<close> is
  nullable and otherwise holds the dumped list of paths. Timestamps are clock readings.
\<close>

datatype json_result = EmptyObject | ResultObject aggregated | ErrorObject string

record Analysis =
  analysis_id :: string
  json_result :: json_result
  image_paths :: "string list option"
  status :: string
  created_at :: nat
  updated_at :: nat

text \<open>
  The state of the server: the table, the background tasks that were added and have not
  run yet, and the module-level singleton \<open>_pipeline_service\<close>.
\<close>

record ('img, 'crop) state =
  db :: "string \<rightharpoonup> Analysis"
  tasks :: "(string \<times> string list) list"
  pipeline_service :: "('img, 'crop) PipelineService option"

datatype http_error = HTTPException nat string | Unhandled string

definition get_pipeline_service ::
  "('img, 'crop) state \<Rightarrow> ('img, 'crop) PipelineService \<times> ('img, 'crop) state" where
  "get_pipeline_service s =
     (case pipeline_service s of
        None \<Rightarrow>
          (let svc = \<lparr>device = ''cpu'', loaded_pipeline = None\<rparr>
           in (svc, s\<lparr>pipeline_service := Some svc\<rparr>))
      | Some svc \<Rightarrow> (svc, s))"

section \<open>backend/routers/analyze.py\<close>

record StartResponse =
  response_analysis_id :: string
  response_status :: string
  message :: string

definition loads_image_paths :: "Analysis \<Rightarrow> string list" where
  "loads_image_paths analysis = (case image_paths analysis of None \<Rightarrow> [] | Some ps \<Rightarrow> ps)"

text \<open>
  The request handler. It reads the row and never writes it; on the last path it adds the
  background task to the task list.
\<close>

definition start_analysis ::
  "string \<Rightarrow> ('img, 'crop) state \<Rightarrow> (http_error + StartResponse) \<times> ('img, 'crop) state" where
  "start_analysis aid s =
     (case db s aid of
        None \<Rightarrow> (Inl (HTTPException 404 ''Analysis not found. Upload images first.''), s)
      | Some analysis \<Rightarrow>
          if status analysis = ''processing''
          then (Inl (HTTPException 400 ''Analysis is already in progress''), s)
          else if status analysis = ''completed''
          then (Inr \<lparr>response_analysis_id = aid, response_status = ''completed'',
                     message = ''Analysis already completed. Use /api/result/{analysis_id} to get results.''\<rparr>, s)
          else (let paths = loads_image_paths analysis
                in if paths = []
                   then (Inl (HTTPException 400 ''No images found for this analysis''), s)
                   else (Inr \<lparr>response_analysis_id = aid, response_status = ''processing'',
                              message = ''Analysis started for '' @ str_nat (length paths) @
                                '' images. Poll /api/result/'' @ aid @ '' for results.''\<rparr>,
                         s\<lparr>tasks := tasks s @ [(aid, paths)]\<rparr>)))"

text \<open>
  The background task, run as one step. \<open>t1\<close> and \<open>t2\<close> are the clock readings at
  its first and its last commit; the first commit writes the row only when the status
  changes. An exception that leaves \<open>analyze_images\<close> is caught by the \<open>except\<close>
  clause of the task, here \<open>mark_failed\<close>. Failures of the database session itself are
  not modelled.
\<close>

definition mark_failed ::
  "nat \<Rightarrow> string \<Rightarrow> string \<Rightarrow> ('img, 'crop) state \<Rightarrow> ('img, 'crop) state" where
  "mark_failed t aid e s =
     (case db s aid of
        None \<Rightarrow> s
      | Some analysis \<Rightarrow>
          s\<lparr>db := (db s)(aid \<mapsto> analysis\<lparr>status := ''failed'', json_result := ErrorObject e,
                                             updated_at := t\<rparr>)\<rparr>)"

definition run_analysis_background ::
  "('img, 'crop) world \<Rightarrow> nat \<Rightarrow> nat \<Rightarrow> string \<Rightarrow> string list \<Rightarrow> ('img, 'crop) state \<Rightarrow>
     ('img, 'crop) state" where
  "run_analysis_background env t1 t2 aid paths s =
     (case db s aid of
        None \<Rightarrow> s
      | Some analysis \<Rightarrow>
          (let analysis1 = (if status analysis = ''processing'' then analysis
                            else analysis\<lparr>status := ''processing'', updated_at := t1\<rparr>);
               s1 = s\<lparr>db := (db s)(aid \<mapsto> analysis1)\<rparr>;
               (svc, s2) = get_pipeline_service s1;
               (outcome, svc') = analyze_images env svc paths;
               s3 = s2\<lparr>pipeline_service := Some svc'\<rparr>
           in case outcome of
                Inr result \<Rightarrow>
                  s3\<lparr>db := (db s3)(aid \<mapsto> analysis1\<lparr>json_result := ResultObject result,
                                                      status := ''completed'',
                                                      updated_at := t2\<rparr>)\<rparr>
              | Inl e \<Rightarrow> mark_failed t2 aid e s3))"

text \<open>Running the oldest background task that has been added.\<close>

definition run_next_task ::
  "('img, 'crop) world \<Rightarrow> nat \<Rightarrow> nat \<Rightarrow> ('img, 'crop) state \<Rightarrow> ('img, 'crop) state" where
  "run_next_task env t1 t2 s =
     (case tasks s of
        [] \<Rightarrow> s
      | (aid, paths) # rest \<Rightarrow> run_analysis_background env t1 t2 aid paths (s\<lparr>tasks := rest\<rparr>))"

section \<open>backend/routers/upload.py\<close>

text \<open>
  The paths of \<open>pathlib\<close>, POSIX flavour. A path is parsed into its root and
  its components: the root is \<open>//\<close> for exactly two leading slashes and \<open>/\<close> for any
  other number of them, and the components are what lies between the slashes, with empty
  components and \<open>.\<close> components dropped. \<open>str\<close> joins the components with slashes
  after the root and gives \<open>.\<close> for the empty path. The operator \<open>/\<close> with a string
  parses the string and appends its components, unless the string has a root: then the
  result is the path of the string alone.
\<close>

fun split_slash :: "string \<Rightarrow> string list" where
  "split_slash [] = [[]]"
| "split_slash (c # cs) =
     (if c = CHR ''/'' then [] # split_slash cs
      else (case split_slash cs of x # xs \<Rightarrow> (c # x) # xs | [] \<Rightarrow> [[c]]))"

fun join_slash :: "string list \<Rightarrow> string" where
  "join_slash [] = []"
| "join_slash [x] = x"
| "join_slash (x # y # ys) = x @ ''/'' @ join_slash (y # ys)"

record PurePath =
  path_root :: string
  path_parts :: "string list"

definition Path :: "string \<Rightarrow> PurePath" where
  "Path s =
     \<lparr>path_root = (if take 2 s = ''//'' \<and> take 3 s \<noteq> ''///'' then ''//''
                   else if take 1 s = ''/'' then ''/'' else []),
      path_parts = filter (\<lambda>x. x \<noteq> [] \<and> x \<noteq> ''.'') (split_slash s)\<rparr>"

definition path_str :: "PurePath \<Rightarrow> string" where
  "path_str p =
     (if path_root p = [] \<and> path_parts p = [] then ''.''
      else path_root p @ join_slash (path_parts p))"

definition truediv :: "PurePath \<Rightarrow> string \<Rightarrow> PurePath" where
  "truediv p key =
     (let q = Path key
      in if path_root q \<noteq> [] then q
         else \<lparr>path_root = path_root p, path_parts = path_parts p @ path_parts q\<rparr>)"

text \<open>
  The name of a path is its last component. The suffix of the name starts at its last
  dot, provided that dot is neither the first nor the last character of the name.
\<close>

definition path_name :: "PurePath \<Rightarrow> string" where
  "path_name p = (if path_parts p = [] then [] else last (path_parts p))"

definition path_suffix :: "PurePath \<Rightarrow> string" where
  "path_suffix p =
     (let name = path_name p;
          ext = rev (takeWhile (\<lambda>c. c \<noteq> CHR ''.'') (rev name))
      in if CHR ''.'' \<in> set name \<and> ext \<noteq> [] \<and> length ext + 1 < length name
         then CHR ''.'' # ext else [])"

definition ALLOWED_EXTENSIONS :: "string set" where
  "ALLOWED_EXTENSIONS = {''.jpg'', ''.jpeg'', ''.png'', ''.bmp'', ''.webp''}"

definition validate_image :: "string \<Rightarrow> bool" where
  "validate_image fname = (lower (path_suffix (Path fname)) \<in> ALLOWED_EXTENSIONS)"

text \<open>
  The printed form of a set of strings: the elements in quotes, in the order in which the
  set is iterated, which the language leaves open; the handler takes that order from
  outside.
\<close>

definition py_repr :: "string \<Rightarrow> string" where
  "py_repr s = [CHR 0x27] @ s @ [CHR 0x27]"

fun join_comma :: "string list \<Rightarrow> string" where
  "join_comma [] = []"
| "join_comma [x] = x"
| "join_comma (x # y # ys) = x @ '', '' @ join_comma (y # ys)"

definition str_set :: "string list \<Rightarrow> string" where
  "str_set order = ''{'' @ join_comma (map py_repr order) @ ''}''"

text \<open>
  An uploaded file, and what the handler takes from outside: the generated id, the upload
  directory, the clock, the outcome of creating the directory and of writing a file
  (\<open>Some e\<close> when it raises), the text of the integrity error of the unique index, and
  the iteration order of the set of extensions.
\<close>

record UploadFile =
  filename :: string
  content :: string

record upload_env =
  uuid4 :: string
  UPLOAD_DIR :: string
  utcnow :: nat
  mkdir_error :: "string \<Rightarrow> string option"
  write_error :: "string \<Rightarrow> string option"
  integrity_error :: string
  set_order :: "string list"

record UploadResponse =
  upload_analysis_id :: string
  image_count :: nat
  upload_message :: string

fun save_files ::
  "upload_env \<Rightarrow> PurePath \<Rightarrow> UploadFile list \<Rightarrow> string list \<Rightarrow> string list raises" where
  "save_files env upload_path [] saved_paths = Inr saved_paths"
| "save_files env upload_path (f # fs) saved_paths =
     (let file_path = truediv upload_path (filename f)
      in case write_error env (path_str file_path) of
           Some e \<Rightarrow> Inl e
         | None \<Rightarrow> save_files env upload_path fs (saved_paths @ [path_str file_path]))"

definition upload_images ::
  "upload_env \<Rightarrow> UploadFile list \<Rightarrow> ('img, 'crop) state \<Rightarrow>
     (http_error + UploadResponse) \<times> ('img, 'crop) state" where
  "upload_images env files s =
     (if files = [] then (Inl (HTTPException 400 ''No files provided''), s)
      else case find (\<lambda>f. \<not> validate_image (filename f)) files of
        Some f \<Rightarrow>
          (Inl (HTTPException 400 (''Invalid file type: '' @ filename f @ ''. Allowed: '' @
                  str_set (set_order env))), s)
      | None \<Rightarrow>
          (let aid = uuid4 env;
               upload_path = truediv (Path (UPLOAD_DIR env)) aid
           in case mkdir_error env (path_str upload_path) of
                Some e \<Rightarrow> (Inl (Unhandled e), s)
              | None \<Rightarrow>
                  (case save_files env upload_path files [] of
                     Inl e \<Rightarrow> (Inl (HTTPException 500 (''Upload failed: '' @ e)), s)
                   | Inr saved_paths \<Rightarrow>
                       if aid \<in> dom (db s)
                       then (Inl (HTTPException 500 (''Upload failed: '' @ integrity_error env)), s)
                       else (Inr \<lparr>upload_analysis_id = aid,
                                  image_count = length saved_paths,
                                  upload_message = ''Successfully uploaded '' @
                                    str_nat (length saved_paths) @ '' images. Use /api/analyze/'' @
                                    aid @ '' to start analysis.''\<rparr>,
                             s\<lparr>db := (db s)(aid \<mapsto>
                                  \<lparr>analysis_id = aid, json_result = EmptyObject,
                                   image_paths = Some saved_paths, status = ''pending'',
                                   created_at = utcnow env, updated_at = utcnow env\<rparr>)\<rparr>))))"

section \<open>Derived notions and sample data\<close>

text \<open>
  What one path of the manifest does in the loop of \<open>analyze_images\<close>, for a service
  whose pipeline is obtained as \<open>pipeline env self\<close> says: \<open>Inr\<close> the faces it adds to the
  aggregate (none when the file is missing, the pipeline cannot be obtained or the
  processing raises, and the message about it is printed), and \<open>Inl\<close> the exception that
  leaves the loop when the message cannot be printed.
\<close>

definition image_batch ::
  "('img, 'crop) world \<Rightarrow> ('img, 'crop) PipelineService \<Rightarrow> string \<Rightarrow> face list raises" where
  "image_batch env self p =
     (if \<not> path_exists env p
      then (case py_print (print_error env) (''Warning: Image not found: '' @ p) of
              Inl e \<Rightarrow> Inl e | Inr u \<Rightarrow> Inr [])
      else case fst (pipeline env self) of
             Inl e \<Rightarrow> (case except_handler env p e of Inl e' \<Rightarrow> Inl e' | Inr u \<Rightarrow> Inr [])
           | Inr pl \<Rightarrow>
               (case process_image (print_error env) pl p of
                  Inl e \<Rightarrow> (case except_handler env p e of Inl e' \<Rightarrow> Inl e' | Inr u \<Rightarrow> Inr [])
                | Inr fs \<Rightarrow> Inr fs))"

definition batch_faces ::
  "('img, 'crop) world \<Rightarrow> ('img, 'crop) PipelineService \<Rightarrow> string \<Rightarrow> face list" where
  "batch_faces env self p = (case image_batch env self p of Inl e \<Rightarrow> [] | Inr fs \<Rightarrow> fs)"

text \<open>Whether the loop of \<open>process_image\<close> keeps a detection: its crop is at least 10 by 10.\<close>

definition keeps ::
  "('img, 'crop) ImagePipeline \<Rightarrow> 'img \<Rightarrow> detected \<Rightarrow> bool" where
  "keeps self img d =
     (case crop self img (bbox d) of
        Inl e \<Rightarrow> False
      | Inr c \<Rightarrow> \<not> (width self c < 10 \<or> height self c < 10))"

definition age_buckets :: "string set" where
  "age_buckets = {''10s'', ''20s'', ''30s'', ''40_plus''}"

text \<open>
  A small imaging library for the examples: an image carries no data, a crop is its
  width and height, taken from the corners of the box as \<open>Image.crop\<close> does for a
  box whose right and lower edges do not lie before its left and upper ones.
\<close>

definition box_crop :: "unit \<Rightarrow> int \<times> int \<times> int \<times> int \<Rightarrow> (int \<times> int) raises" where
  "box_crop img b = (case b of (x1, y1, x2, y2) \<Rightarrow> Inr (x2 - x1, y2 - y1))"

definition sample_pipeline :: "(unit, int \<times> int) ImagePipeline" where
  "sample_pipeline =
     \<lparr>face_detector =
        (\<lambda>p. if p = ''a.jpg''
              then Inr [\<lparr>xyxy = (0, 0, 50, 50), conf = 1\<rparr>,
                        \<lparr>xyxy = (100, 0, 220, 120), conf = 1\<rparr>,
                        \<lparr>xyxy = (300, 300, 305, 340), conf = 1\<rparr>]
              else if p = ''b.jpg''
              then Inr [\<lparr>xyxy = (10, 10, 60, 60), conf = 1\<rparr>]
              else Inl ''cannot identify image file''),
      gender_model = (\<lambda>c. Inr (if 100 \<le> fst c then ''female'' else ''male'')),
      age_model = (\<lambda>c. Inr (if 100 \<le> snd c then ''30-39'' else ''20-29'')),
      Image_open = (\<lambda>p. Inr ()),
      crop = box_crop,
      width = fst,
      height = snd\<rparr>"

text \<open>A printer that writes every text.\<close>

definition quiet :: printer where
  "quiet text = None"

definition sample_world :: "(unit, int \<times> int) world" where
  "sample_world =
     \<lparr>path_exists = (\<lambda>p. p \<noteq> ''missing.jpg''),
      print_error = quiet,
      ImagePipeline_init = (\<lambda>d. Inr sample_pipeline)\<rparr>"

text \<open>A world whose models cannot be loaded.\<close>

definition broken_world :: "(unit, int \<times> int) world" where
  "broken_world =
     \<lparr>path_exists = (\<lambda>p. True),
      print_error = quiet,
      ImagePipeline_init = (\<lambda>d. Inl ''model download failed'')\<rparr>"









definition sample_service :: "(unit, int \<times> int) PipelineService" where
  "sample_service = \<lparr>device = ''cpu'', loaded_pipeline = None\<rparr>"

definition sample_job :: "string \<Rightarrow> Analysis" where
  "sample_job st =
     \<lparr>analysis_id = ''job'', json_result = EmptyObject,
      image_paths = Some [''a.jpg'', ''b.jpg''], status = st,
      created_at = 0, updated_at = 0\<rparr>"

definition sample_state :: "string \<Rightarrow> (unit, int \<times> int) state" where
  "sample_state st =
     \<lparr>db = [''job'' \<mapsto> sample_job st], tasks = [], pipeline_service = None\<rparr>"

definition sample_upload_env :: upload_env where
  "sample_upload_env =
     \<lparr>uuid4 = ''new'', UPLOAD_DIR = ''/srv/storage/uploads'', utcnow = 7,
      mkdir_error = (\<lambda>p. None), write_error = (\<lambda>p. None),
      integrity_error = ''UNIQUE constraint failed: analyses.analysis_id'',
      set_order = [''.png'', ''.jpg'', ''.webp'', ''.jpeg'', ''.bmp'']\<rparr>"

text \<open>What the sample pipeline detects in \<open>a.jpg\<close>, and the faces it returns for it.\<close>

definition detections_a :: "detected list" where
  "detections_a =
     [\<lparr>bbox = (0, 0, 50, 50), confidence = 1\<rparr>,
      \<lparr>bbox = (100, 0, 220, 120), confidence = 1\<rparr>,
      \<lparr>bbox = (300, 300, 305, 340), confidence = 1\<rparr>]"

definition faces_a :: "face list" where
  "faces_a =
     [\<lparr>bbox = (0, 0, 50, 50), confidence = 1, gender = ''male'', age_group = ''20s''\<rparr>,
      \<lparr>bbox = (100, 0, 220, 120), confidence = 1, gender = ''female'', age_group = ''30s''\<rparr>]"

definition sample_face :: "string \<Rightarrow> string \<Rightarrow> face" where
  "sample_face g a = \<lparr>bbox = (0, 0, 20, 20), confidence = 1, gender = g, age_group = a\<rparr>"

section \<open>The request handler on jobs that are running or done\<close>

text \<open>
  C8. For every job whose status is \<open>processing\<close>, \<open>start_analysis\<close> answers with the
  error 400 "Analysis is already in progress" and does nothing else: the state it returns
  is the state it was given, so no background task is added and no row is written.
\<close>

theorem start_processing_conflict:
  "db s aid = Some a \<Longrightarrow> status a = ''processing'' \<Longrightarrow>
     start_analysis aid s = (Inl (HTTPException 400 ''Analysis is already in progress''), s)"
  by (simp add: start_analysis_def)

theorem start_processing_conflict_witness:
  "db (sample_state ''processing'') ''job'' = Some (sample_job ''processing'') \<and>
   status (sample_job ''processing'') = ''processing'' \<and>
   start_analysis ''job'' (sample_state ''processing'') =
     (Inl (HTTPException 400 ''Analysis is already in progress''), sample_state ''processing'')"
proof -
  have h1: "db (sample_state ''processing'') ''job'' = Some (sample_job ''processing'')"
    by (simp add: sample_state_def)
  have h2: "status (sample_job ''processing'') = ''processing''"
    by (simp add: sample_job_def)
  from start_processing_conflict [OF h1 h2] h1 h2 show ?thesis by simp
qed

text \<open>
  C6. For every job whose status is \<open>completed\<close>, \<open>start_analysis\<close> reports the status
  \<open>completed\<close> and returns the state unchanged: the stored result and \<open>updated_at\<close> stay
  as they are, no background task is added, and the pipeline service is not touched (the
  handler has no access to the vision models at all).
\<close>

theorem start_completed_noop:
  "db s aid = Some a \<Longrightarrow> status a = ''completed'' \<Longrightarrow>
     start_analysis aid s =
       (Inr \<lparr>response_analysis_id = aid, response_status = ''completed'',
             message = ''Analysis already completed. Use /api/result/{analysis_id} to get results.''\<rparr>, s)"
  by (simp add: start_analysis_def)

theorem start_completed_noop_witness:
  "db (sample_state ''completed'') ''job'' = Some (sample_job ''completed'') \<and>
   status (sample_job ''completed'') = ''completed'' \<and>
   start_analysis ''job'' (sample_state ''completed'') =
     (Inr \<lparr>response_analysis_id = ''job'', response_status = ''completed'',
           message = ''Analysis already completed. Use /api/result/{analysis_id} to get results.''\<rparr>,
      sample_state ''completed'')"
proof -
  have h1: "db (sample_state ''completed'') ''job'' = Some (sample_job ''completed'')"
    by (simp add: sample_state_def)
  have h2: "status (sample_job ''completed'') = ''completed''"
    by (simp add: sample_job_def)
  from start_completed_noop [OF h1 h2] h1 h2 show ?thesis by simp
qed

section \<open>Counting faces\<close>

text \<open>What one face and a list of faces add to each entry of the aggregate.\<close>

lemma count_face_total: "total_faces (count_face agg f) = total_faces agg + 1"
  by (simp add: count_face_def Let_def split: option.splits)

lemma count_face_gender:
  "gender_counts (count_face agg f) k =
     (case gender_counts agg k of None \<Rightarrow> None
      | Some n \<Rightarrow> Some (if lower (gender f) = k then n + 1 else n))"
  by (auto simp add: count_face_def Let_def split: option.splits)

lemma count_face_age:
  "age_group_counts (count_face agg f) k =
     (case age_group_counts agg k of None \<Rightarrow> None
      | Some n \<Rightarrow> Some (if age_group f = k then n + 1 else n))"
  by (auto simp add: count_face_def Let_def split: option.splits)

lemma count_faces_Nil: "count_faces agg [] = agg"
  by (simp add: count_faces_def)

lemma count_faces_append: "count_faces (count_faces agg xs) ys = count_faces agg (xs @ ys)"
  by (simp add: count_faces_def)

lemma count_faces_total: "total_faces (count_faces agg fs) = total_faces agg + int (length fs)"
  unfolding count_faces_def
  by (induction fs arbitrary: agg) (simp_all add: count_face_total)

lemma count_faces_gender:
  "gender_counts (count_faces agg fs) k =
     (case gender_counts agg k of None \<Rightarrow> None
      | Some n \<Rightarrow> Some (n + int (length (filter (\<lambda>f. lower (gender f) = k) fs))))"
  unfolding count_faces_def
  by (induction fs arbitrary: agg) (auto simp add: count_face_gender split: option.splits)

lemma count_faces_age:
  "age_group_counts (count_faces agg fs) k =
     (case age_group_counts agg k of None \<Rightarrow> None
      | Some n \<Rightarrow> Some (n + int (length (filter (\<lambda>f. age_group f = k) fs))))"
  unfolding count_faces_def
  by (induction fs arbitrary: agg) (auto simp add: count_face_age split: option.splits)

lemma foldl_count_faces: "foldl count_faces agg bs = count_faces agg (concat bs)"
  by (induction bs arbitrary: agg) (simp_all add: count_faces_Nil count_faces_append)

text \<open>Counting with disjoint predicates.\<close>

lemma filter2_le:
  "(\<And>x. x \<in> set xs \<Longrightarrow> \<not> (P x \<and> Q x)) \<Longrightarrow>
     length (filter P xs) + length (filter Q xs) \<le> length xs"
  by (induction xs) auto

lemma filter2_eq:
  "(\<And>x. x \<in> set xs \<Longrightarrow> \<not> (P x \<and> Q x)) \<Longrightarrow> (\<And>x. x \<in> set xs \<Longrightarrow> P x \<or> Q x) \<Longrightarrow>
     length (filter P xs) + length (filter Q xs) = length xs"
  by (induction xs) auto

lemma key_filter2_le:
  "a \<noteq> b \<Longrightarrow>
     length (filter (\<lambda>x. k x = a) xs) + length (filter (\<lambda>x. k x = b) xs) \<le> length xs"
  by (rule filter2_le) simp

lemma key_filter2_eq:
  "a \<noteq> b \<Longrightarrow> \<forall>x\<in>set xs. k x \<in> {a, b} \<Longrightarrow>
     length (filter (\<lambda>x. k x = a) xs) + length (filter (\<lambda>x. k x = b) xs) = length xs"
  by (rule filter2_eq) auto

lemma key_filter4_le:
  "distinct [a, b, c, d] \<Longrightarrow>
     length (filter (\<lambda>x. k x = a) xs) + length (filter (\<lambda>x. k x = b) xs) +
     length (filter (\<lambda>x. k x = c) xs) + length (filter (\<lambda>x. k x = d) xs) \<le> length xs"
  by (induction xs) auto

lemma key_filter4_eq:
  "distinct [a, b, c, d] \<Longrightarrow> \<forall>x\<in>set xs. k x \<in> {a, b, c, d} \<Longrightarrow>
     length (filter (\<lambda>x. k x = a) xs) + length (filter (\<lambda>x. k x = b) xs) +
     length (filter (\<lambda>x. k x = c) xs) + length (filter (\<lambda>x. k x = d) xs) = length xs"
  by (induction xs) auto

lemma new_gender_male: "gender_counts new_aggregated ''male'' = Some 0"
  and new_gender_female: "gender_counts new_aggregated ''female'' = Some 0"
  and new_age_10s: "age_group_counts new_aggregated ''10s'' = Some 0"
  and new_age_20s: "age_group_counts new_aggregated ''20s'' = Some 0"
  and new_age_30s: "age_group_counts new_aggregated ''30s'' = Some 0"
  and new_age_40: "age_group_counts new_aggregated ''40_plus'' = Some 0"
  and new_total: "total_faces new_aggregated = 0"
  by (simp_all add: new_aggregated_def)

lemma new_gender_dom: "gender_counts new_aggregated k = None \<longleftrightarrow> k \<notin> {''male'', ''female''}"
  by (simp add: new_aggregated_def)

lemma new_age_dom: "age_group_counts new_aggregated k = None \<longleftrightarrow> k \<notin> age_buckets"
  by (auto simp add: new_aggregated_def age_buckets_def)

text \<open>The invariant of an aggregate counted from the empty one.\<close>

lemma counted_gender:
  "\<exists>m f. gender_counts (count_faces new_aggregated fs) ''male'' = Some m \<and>
         gender_counts (count_faces new_aggregated fs) ''female'' = Some f \<and>
         0 \<le> m \<and> 0 \<le> f \<and> m + f \<le> total_faces (count_faces new_aggregated fs) \<and>
         ((\<forall>x\<in>set fs. lower (gender x) \<in> {''male'', ''female''}) \<longrightarrow>
            m + f = total_faces (count_faces new_aggregated fs))"
proof -
  let ?m = "length (filter (\<lambda>x. lower (gender x) = ''male'') fs)"
  let ?f = "length (filter (\<lambda>x. lower (gender x) = ''female'') fs)"
  have le: "?m + ?f \<le> length fs"
    by (rule key_filter2_le) simp
  have eq: "(\<forall>x\<in>set fs. lower (gender x) \<in> {''male'', ''female''}) \<longrightarrow> ?m + ?f = length fs"
    using key_filter2_eq [of "''male''" "''female''" fs "\<lambda>x. lower (gender x)"] by simp
  have le': "int ?m + int ?f \<le> int (length fs)"
    using le by linarith
  have eq': "(\<forall>x\<in>set fs. lower (gender x) \<in> {''male'', ''female''}) \<longrightarrow>
               int ?m + int ?f = int (length fs)"
    using eq by linarith
  show ?thesis
    using le' eq'
    by (simp add: count_faces_gender count_faces_total new_gender_male new_gender_female new_total)
qed

lemma counted_age:
  "\<exists>a1 a2 a3 a4.
     age_group_counts (count_faces new_aggregated fs) ''10s'' = Some a1 \<and>
     age_group_counts (count_faces new_aggregated fs) ''20s'' = Some a2 \<and>
     age_group_counts (count_faces new_aggregated fs) ''30s'' = Some a3 \<and>
     age_group_counts (count_faces new_aggregated fs) ''40_plus'' = Some a4 \<and>
     0 \<le> a1 \<and> 0 \<le> a2 \<and> 0 \<le> a3 \<and> 0 \<le> a4 \<and>
     a1 + a2 + a3 + a4 \<le> total_faces (count_faces new_aggregated fs) \<and>
     ((\<forall>x\<in>set fs. age_group x \<in> age_buckets) \<longrightarrow>
        a1 + a2 + a3 + a4 = total_faces (count_faces new_aggregated fs))"
proof -
  let ?n = "\<lambda>a. length (filter (\<lambda>x. age_group x = a) fs)"
  have le: "?n ''10s'' + ?n ''20s'' + ?n ''30s'' + ?n ''40_plus'' \<le> length fs"
    by (rule key_filter4_le) simp
  have eq: "(\<forall>x\<in>set fs. age_group x \<in> age_buckets) \<longrightarrow>
              ?n ''10s'' + ?n ''20s'' + ?n ''30s'' + ?n ''40_plus'' = length fs"
    using key_filter4_eq [of "''10s''" "''20s''" "''30s''" "''40_plus''" fs age_group]
    by (simp add: age_buckets_def)
  have le': "int (?n ''10s'') + int (?n ''20s'') + int (?n ''30s'') + int (?n ''40_plus'')
               \<le> int (length fs)"
    using le by linarith
  have eq': "(\<forall>x\<in>set fs. age_group x \<in> age_buckets) \<longrightarrow>
               int (?n ''10s'') + int (?n ''20s'') + int (?n ''30s'') + int (?n ''40_plus'')
                 = int (length fs)"
    using eq by linarith
  show ?thesis
    using le' eq'
    by (simp add: count_faces_age count_faces_total new_age_10s new_age_20s new_age_30s
        new_age_40 new_total)
qed

lemma counted_gender_dom:
  "gender_counts (count_faces new_aggregated fs) k = None \<longleftrightarrow> k \<notin> {''male'', ''female''}"
  using new_gender_dom [of k] by (auto simp add: count_faces_gender split: option.splits)

lemma counted_age_dom:
  "age_group_counts (count_faces new_aggregated fs) k = None \<longleftrightarrow> k \<notin> age_buckets"
  using new_age_dom [of k] by (auto simp add: count_faces_age split: option.splits)

lemma count_face_unknown_gender:
  "gender_counts agg (lower (gender x)) = None \<Longrightarrow>
     gender_counts (count_face agg x) = gender_counts agg"
  by (rule ext) (auto simp add: count_face_gender split: option.splits)

lemma count_face_unknown_age:
  "age_group_counts agg (age_group x) = None \<Longrightarrow>
     age_group_counts (count_face agg x) = age_group_counts agg"
  by (rule ext) (auto simp add: count_face_age split: option.splits)

lemmas str_eval = lower_def lower_char_def ascii_uppercase_def ascii_lowercase_def

section \<open>The aggregate\<close>

text \<open>
  C4. For every sequence of batches of face records counted into the empty aggregate, the
  entries for \<open>male\<close> and \<open>female\<close> exist, are not negative and sum to at most
  \<open>total_faces\<close>, and so do the four age entries; the gender sum equals \<open>total_faces\<close>
  when every face has a gender whose lower-case form is \<open>male\<close> or \<open>female\<close>, and the
  age sum equals it when every face has one of the four age groups. A further face with
  another gender label, or with another age group, raises \<open>total_faces\<close> by one and
  leaves the gender counts, or the age counts, as they are.
\<close>

theorem aggregate_invariant:
  assumes "agg = foldl count_faces new_aggregated batches"
  shows "\<exists>m f a1 a2 a3 a4.
     gender_counts agg ''male'' = Some m \<and> gender_counts agg ''female'' = Some f \<and>
     age_group_counts agg ''10s'' = Some a1 \<and> age_group_counts agg ''20s'' = Some a2 \<and>
     age_group_counts agg ''30s'' = Some a3 \<and> age_group_counts agg ''40_plus'' = Some a4 \<and>
     0 \<le> m \<and> 0 \<le> f \<and> 0 \<le> a1 \<and> 0 \<le> a2 \<and> 0 \<le> a3 \<and> 0 \<le> a4 \<and>
     m + f \<le> total_faces agg \<and>
     a1 + a2 + a3 + a4 \<le> total_faces agg \<and>
     ((\<forall>x\<in>set (concat batches). lower (gender x) \<in> {''male'', ''female''}) \<longrightarrow>
        m + f = total_faces agg) \<and>
     ((\<forall>x\<in>set (concat batches). age_group x \<in> age_buckets) \<longrightarrow>
        a1 + a2 + a3 + a4 = total_faces agg) \<and>
     (lower (gender x) \<notin> {''male'', ''female''} \<longrightarrow>
        total_faces (count_face agg x) = total_faces agg + 1 \<and>
        gender_counts (count_face agg x) = gender_counts agg) \<and>
     (age_group y \<notin> age_buckets \<longrightarrow>
        total_faces (count_face agg y) = total_faces agg + 1 \<and>
        age_group_counts (count_face agg y) = age_group_counts agg)"
proof -
  have agg: "agg = count_faces new_aggregated (concat batches)"
    using assms by (simp add: foldl_count_faces)
  obtain m f where g:
    "gender_counts agg ''male'' = Some m" "gender_counts agg ''female'' = Some f"
    "0 \<le> m" "0 \<le> f" "m + f \<le> total_faces agg"
    "(\<forall>x\<in>set (concat batches). lower (gender x) \<in> {''male'', ''female''}) \<longrightarrow>
       m + f = total_faces agg"
    using counted_gender [of "concat batches"] unfolding agg by blast
  obtain a1 a2 a3 a4 where a:
    "age_group_counts agg ''10s'' = Some a1" "age_group_counts agg ''20s'' = Some a2"
    "age_group_counts agg ''30s'' = Some a3" "age_group_counts agg ''40_plus'' = Some a4"
    "0 \<le> a1" "0 \<le> a2" "0 \<le> a3" "0 \<le> a4"
    "a1 + a2 + a3 + a4 \<le> total_faces agg"
    "(\<forall>x\<in>set (concat batches). age_group x \<in> age_buckets) \<longrightarrow>
       a1 + a2 + a3 + a4 = total_faces agg"
    using counted_age [of "concat batches"] unfolding agg by blast
  have ug: "lower (gender x) \<notin> {''male'', ''female''} \<longrightarrow>
        total_faces (count_face agg x) = total_faces agg + 1 \<and>
        gender_counts (count_face agg x) = gender_counts agg"
    using counted_gender_dom [of "concat batches" "lower (gender x)"]
    by (simp add: agg count_face_total count_face_unknown_gender)
  have ua: "age_group y \<notin> age_buckets \<longrightarrow>
        total_faces (count_face agg y) = total_faces agg + 1 \<and>
        age_group_counts (count_face agg y) = age_group_counts agg"
    using counted_age_dom [of "concat batches" "age_group y"]
    by (simp add: agg count_face_total count_face_unknown_age)
  from g a ug ua show ?thesis by blast
qed

theorem aggregate_invariant_witness:
  "list_all (\<lambda>x. lower (gender x) \<in> {''male'', ''female''} \<and> age_group x \<in> age_buckets)
     (concat [[sample_face ''Male'' ''20s'', sample_face ''female'' ''30s''],
              [sample_face ''male'' ''20s'']]) \<and>
   lower (gender (sample_face ''unknown'' ''20s'')) \<notin> {''male'', ''female''} \<and>
   age_group (sample_face ''male'' ''teen'') \<notin> age_buckets \<and>
   (\<exists>agg. agg = foldl count_faces new_aggregated
              [[sample_face ''Male'' ''20s'', sample_face ''female'' ''30s''],
               [sample_face ''male'' ''20s'']] \<and>
      total_faces agg = 3 \<and>
      gender_counts agg ''male'' = Some 2 \<and> gender_counts agg ''female'' = Some 1 \<and>
      age_group_counts agg ''10s'' = Some 0 \<and> age_group_counts agg ''20s'' = Some 2 \<and>
      age_group_counts agg ''30s'' = Some 1 \<and> age_group_counts agg ''40_plus'' = Some 0 \<and>
      gender_counts (count_face agg (sample_face ''unknown'' ''20s'')) = gender_counts agg \<and>
      total_faces (count_face agg (sample_face ''unknown'' ''20s'')) = 4 \<and>
      age_group_counts (count_face agg (sample_face ''male'' ''teen'')) = age_group_counts agg)"
proof -
  let ?bs = "[[sample_face ''Male'' ''20s'', sample_face ''female'' ''30s''],
              [sample_face ''male'' ''20s'']]"
  let ?agg = "foldl count_faces new_aggregated ?bs"
  have h1: "\<forall>x\<in>set (concat ?bs). lower (gender x) \<in> {''male'', ''female''}"
    by (simp add: sample_face_def str_eval)
  have h2: "\<forall>x\<in>set (concat ?bs). age_group x \<in> age_buckets"
    by (simp add: sample_face_def age_buckets_def)
  have h3: "lower (gender (sample_face ''unknown'' ''20s'')) \<notin> {''male'', ''female''}"
    by (simp add: sample_face_def str_eval)
  have h4: "age_group (sample_face ''male'' ''teen'') \<notin> age_buckets"
    by (simp add: sample_face_def age_buckets_def)
  have t: "total_faces ?agg = 3"
    by (simp add: count_faces_def count_face_total new_total)
  have gm: "gender_counts ?agg ''male'' = Some 2"
    by (simp add: foldl_count_faces count_faces_gender new_gender_male sample_face_def str_eval)
  have gf: "gender_counts ?agg ''female'' = Some 1"
    by (simp add: foldl_count_faces count_faces_gender new_gender_female sample_face_def str_eval)
  have a1: "age_group_counts ?agg ''10s'' = Some 0"
    by (simp add: foldl_count_faces count_faces_age new_age_10s sample_face_def)
  have a2: "age_group_counts ?agg ''20s'' = Some 2"
    by (simp add: foldl_count_faces count_faces_age new_age_20s sample_face_def)
  have a3: "age_group_counts ?agg ''30s'' = Some 1"
    by (simp add: foldl_count_faces count_faces_age new_age_30s sample_face_def)
  have a4: "age_group_counts ?agg ''40_plus'' = Some 0"
    by (simp add: foldl_count_faces count_faces_age new_age_40 sample_face_def)
  from aggregate_invariant [OF refl, of ?bs "sample_face ''unknown'' ''20s''"
      "sample_face ''male'' ''teen''"] h3 h4
  have u: "gender_counts (count_face ?agg (sample_face ''unknown'' ''20s'')) = gender_counts ?agg"
    "total_faces (count_face ?agg (sample_face ''unknown'' ''20s'')) = total_faces ?agg + 1"
    "age_group_counts (count_face ?agg (sample_face ''male'' ''teen'')) = age_group_counts ?agg"
    by blast+
  show ?thesis
    using h1 h2 h3 h4 t gm gf a1 a2 a3 a4 u by (simp add: list_all_iff)
qed

section \<open>Order of the images\<close>

text \<open>Counting depends on the multiset of faces only.\<close>

lemma count_faces_mset:
  assumes "mset xs = mset ys"
  shows "count_faces agg xs = count_faces agg ys"
proof (rule aggregated.equality)
  show "total_faces (count_faces agg xs) = total_faces (count_faces agg ys)"
    using mset_eq_length [OF assms] by (simp add: count_faces_total)
next
  have len: "length (filter P xs) = length (filter P ys)" for P :: "face \<Rightarrow> bool"
  proof -
    have "mset (filter P xs) = mset (filter P ys)"
      using assms by (metis mset_filter)
    then show ?thesis by (rule mset_eq_length)
  qed
  show "gender_counts (count_faces agg xs) = gender_counts (count_faces agg ys)"
    by (rule ext) (simp add: count_faces_gender len split: option.splits)
  show "age_group_counts (count_faces agg xs) = age_group_counts (count_faces agg ys)"
    by (rule ext) (simp add: count_faces_age len split: option.splits)
qed simp

lemma mset_concat_cong:
  assumes "mset bs = mset bs'"
  shows "mset (concat bs) = mset (concat bs')"
proof -
  have "mset (concat bs) = sum_mset (image_mset mset (mset bs))"
    by (simp add: mset_concat flip: sum_mset_sum_list)
  also have "\<dots> = sum_mset (image_mset mset (mset bs'))"
    using assms by simp
  also have "\<dots> = mset (concat bs')"
    by (simp add: mset_concat flip: sum_mset_sum_list)
  finally show ?thesis .
qed

text \<open>The pipeline a service hands out does not change while the loop runs.\<close>

lemma pipeline_Inl: "pipeline env self = (Inl e, self') \<Longrightarrow> self' = self"
  by (auto simp add: pipeline_def split: option.splits sum.splits)

lemma pipeline_Inr:
  "pipeline env self = (Inr pl, self') \<Longrightarrow> pipeline env self' = (Inr pl, self')"
  by (auto simp add: pipeline_def split: option.splits sum.splits)

lemma image_batch_stable:
  "pipeline env self = (r, self') \<Longrightarrow> image_batch env self' = image_batch env self"
proof (cases r)
  case (Inl e)
  assume "pipeline env self = (r, self')"
  with Inl have "self' = self" by (simp add: pipeline_Inl)
  then show ?thesis by simp
next
  case (Inr pl)
  assume p: "pipeline env self = (r, self')"
  with Inr have "pipeline env self' = (Inr pl, self')" by (simp add: pipeline_Inr)
  with p Inr show ?thesis by (intro ext) (simp add: image_batch_def)
qed

lemma batch_faces_stable:
  "pipeline env self = (r, self') \<Longrightarrow> batch_faces env self' = batch_faces env self"
  by (intro ext) (simp add: batch_faces_def image_batch_stable)

text \<open>
  The loop in terms of what each path does: it returns an aggregate exactly when no path
  of the manifest ends in an exception of \<open>print\<close>, and the aggregate then counts the
  faces of all paths, in order.
\<close>

lemma analyze_loop_step_Inl:
  "image_batch env self p = Inl e \<Longrightarrow> fst (analyze_loop env self agg (p # ps)) = Inl e"
  by (auto simp add: image_batch_def split: if_splits sum.splits prod.splits)

lemma analyze_loop_step_Inr:
  assumes "image_batch env self p = Inr fs"
  shows "\<exists>self'. analyze_loop env self agg (p # ps) = analyze_loop env self' (count_faces agg fs) ps \<and>
           image_batch env self' = image_batch env self"
proof (cases "path_exists env p")
  case False
  with assms have "analyze_loop env self agg (p # ps) = analyze_loop env self (count_faces agg fs) ps"
    by (auto simp add: image_batch_def count_faces_Nil split: sum.splits)
  then show ?thesis by blast
next
  case True
  obtain r self' where pl: "pipeline env self = (r, self')" by (cases "pipeline env self")
  from assms True pl
  have "analyze_loop env self agg (p # ps) = analyze_loop env self' (count_faces agg fs) ps"
    by (auto simp add: image_batch_def count_faces_Nil split: sum.splits)
  with image_batch_stable [OF pl] show ?thesis by blast
qed

lemma analyze_loop_returns:
  "fst (analyze_loop env self agg ps) = Inr r \<longleftrightarrow>
     (\<forall>p\<in>set ps. \<exists>fs. image_batch env self p = Inr fs) \<and>
     r = count_faces agg (concat (map (batch_faces env self) ps))"
proof (induction ps arbitrary: self agg)
  case Nil
  show ?case by (auto simp add: count_faces_Nil)
next
  case (Cons p ps)
  show ?case
  proof (cases "image_batch env self p")
    case (Inl e)
    from analyze_loop_step_Inl [OF Inl] Inl show ?thesis by auto
  next
    case (Inr fs)
    from analyze_loop_step_Inr [OF Inr] obtain self' where
      st: "analyze_loop env self agg (p # ps) = analyze_loop env self' (count_faces agg fs) ps"
      and eq: "image_batch env self' = image_batch env self"
      by blast
    have bf: "batch_faces env self' = batch_faces env self"
      by (intro ext) (simp add: batch_faces_def eq)
    have b: "batch_faces env self p = fs"
      by (simp add: batch_faces_def Inr)
    show ?thesis
      unfolding st Cons.IH [of self' "count_faces agg fs"] eq bf
      by (simp add: Inr b count_faces_append)
  qed
qed

lemmas pipe_eval = process_image_def detect_faces_def classify_gender_def classify_age_def
  map_age_to_group_def age_mapping_def py_int_def box_crop_def sample_pipeline_def
  py_print_def quiet_def str_nat.simps

lemma sample_process_a: "process_image quiet sample_pipeline ''a.jpg'' = Inr faces_a"
  by (simp add: pipe_eval faces_a_def)

lemma sample_process_b:
  "process_image quiet sample_pipeline ''b.jpg'' =
     Inr [\<lparr>bbox = (10, 10, 60, 60), confidence = 1, gender = ''male'', age_group = ''20s''\<rparr>]"
  by (simp add: pipe_eval)

lemma sample_analyze_ab:
  "fst (analyze_images sample_world sample_service [''a.jpg'', ''b.jpg'']) =
     Inr (count_faces new_aggregated
            (faces_a @ [\<lparr>bbox = (10, 10, 60, 60), confidence = 1, gender = ''male'',
                         age_group = ''20s''\<rparr>]))"
  by (simp add: analyze_images_def sample_world_def sample_service_def pipeline_def
      py_print_def quiet_def sample_process_a sample_process_b count_faces_append)

text \<open>
  C5. Counting the same batches of face records in any order gives the same aggregate,
  from any starting aggregate; and when \<open>analyze_images\<close> returns an aggregate for a
  manifest, it returns the same aggregate for every permutation of the image paths.
  (Read in both directions: it raises for one order exactly when it raises for the
  other. Only the exception differs, being that of the first message in manifest order
  that cannot be printed.)
\<close>

theorem fold_order_independent:
  "(mset batches = mset batches' \<longrightarrow>
      foldl count_faces agg batches = foldl count_faces agg batches') \<and>
   (mset paths = mset paths' \<and> fst (analyze_images env self paths) = Inr r \<longrightarrow>
      fst (analyze_images env self paths') = Inr r)"
proof (intro conjI impI)
  assume "mset batches = mset batches'"
  then have "mset (concat batches) = mset (concat batches')" by (rule mset_concat_cong)
  then have "count_faces agg (concat batches) = count_faces agg (concat batches')"
    by (rule count_faces_mset)
  then show "foldl count_faces agg batches = foldl count_faces agg batches'"
    by (simp add: foldl_count_faces)
next
  assume h: "mset paths = mset paths' \<and> fst (analyze_images env self paths) = Inr r"
  then have m: "mset paths = mset paths'" by simp
  from h have ok: "\<forall>p\<in>set paths. \<exists>fs. image_batch env self p = Inr fs"
    and r: "r = count_faces new_aggregated (concat (map (batch_faces env self) paths))"
    by (simp_all add: analyze_images_def analyze_loop_returns)
  from m have "set paths = set paths'" by (rule mset_eq_setD)
  with ok have ok': "\<forall>p\<in>set paths'. \<exists>fs. image_batch env self p = Inr fs" by simp
  from m have "mset (map (batch_faces env self) paths) = mset (map (batch_faces env self) paths')"
    by simp
  then have "mset (concat (map (batch_faces env self) paths)) =
             mset (concat (map (batch_faces env self) paths'))"
    by (rule mset_concat_cong)
  then have "count_faces new_aggregated (concat (map (batch_faces env self) paths)) =
             count_faces new_aggregated (concat (map (batch_faces env self) paths'))"
    by (rule count_faces_mset)
  with r ok' show "fst (analyze_images env self paths') = Inr r"
    by (simp add: analyze_images_def analyze_loop_returns)
qed

theorem fold_order_independent_witness:
  "mset [[sample_face ''male'' ''20s'', sample_face ''female'' ''30s''],
         [sample_face ''male'' ''20s''], [sample_face ''Female'' ''40_plus'']] =
   mset [[sample_face ''Female'' ''40_plus''],
         [sample_face ''male'' ''20s'', sample_face ''female'' ''30s''],
         [sample_face ''male'' ''20s'']] \<and>
   foldl count_faces new_aggregated
     [[sample_face ''male'' ''20s'', sample_face ''female'' ''30s''],
      [sample_face ''male'' ''20s''], [sample_face ''Female'' ''40_plus'']] =
   foldl count_faces new_aggregated
     [[sample_face ''Female'' ''40_plus''],
      [sample_face ''male'' ''20s'', sample_face ''female'' ''30s''],
      [sample_face ''male'' ''20s'']] \<and>
   mset [''a.jpg'', ''b.jpg''] = mset [''b.jpg'', ''a.jpg''] \<and>
   fst (analyze_images sample_world sample_service [''a.jpg'', ''b.jpg'']) =
     Inr (count_faces new_aggregated
            (faces_a @ [\<lparr>bbox = (10, 10, 60, 60), confidence = 1, gender = ''male'',
                         age_group = ''20s''\<rparr>])) \<and>
   fst (analyze_images sample_world sample_service [''b.jpg'', ''a.jpg'']) =
     Inr (count_faces new_aggregated
            (faces_a @ [\<lparr>bbox = (10, 10, 60, 60), confidence = 1, gender = ''male'',
                         age_group = ''20s''\<rparr>]))"
proof -
  let ?A = "[sample_face ''male'' ''20s'', sample_face ''female'' ''30s'']"
  let ?B = "[sample_face ''male'' ''20s'']"
  let ?C = "[sample_face ''Female'' ''40_plus'']"
  let ?r = "count_faces new_aggregated
            (faces_a @ [\<lparr>bbox = (10, 10, 60, 60), confidence = 1, gender = ''male'',
                         age_group = ''20s''\<rparr>])"
  have h1: "mset [?A, ?B, ?C] = mset [?C, ?A, ?B]"
    by (simp add: add_mset_commute)
  have h2: "mset [''a.jpg'', ''b.jpg''] = mset [''b.jpg'', ''a.jpg'']"
    by (simp add: add_mset_commute)
  note h3 = sample_analyze_ab
  note inst = fold_order_independent [of "[?A, ?B, ?C]" "[?C, ?A, ?B]" new_aggregated
      "[''a.jpg'', ''b.jpg'']" "[''b.jpg'', ''a.jpg'']" sample_world sample_service ?r]
  from inst h1 have c1: "foldl count_faces new_aggregated [?A, ?B, ?C] =
                         foldl count_faces new_aggregated [?C, ?A, ?B]"
    by blast
  from inst h2 h3 have c2:
    "fst (analyze_images sample_world sample_service [''b.jpg'', ''a.jpg'']) = Inr ?r"
    by blast
  from h1 c1 h2 h3 c2 show ?thesis by blast
qed

section \<open>The background task\<close>

lemma get_pipeline_service_db:
  "fst (get_pipeline_service (s\<lparr>db := d\<rparr>)) = fst (get_pipeline_service s)"
  by (simp add: get_pipeline_service_def Let_def split: option.splits)


text \<open>The row the background task leaves, by the outcome of \<open>analyze_images\<close>.\<close>

lemma run_analysis_background_completed:
  assumes "db s aid = Some a"
    and "fst (analyze_images env (fst (get_pipeline_service s)) paths) = Inr r"
  shows "db (run_analysis_background env t1 t2 aid paths s) aid =
           Some ((if status a = ''processing'' then a
                  else a\<lparr>status := ''processing'', updated_at := t1\<rparr>)
                 \<lparr>json_result := ResultObject r, status := ''completed'', updated_at := t2\<rparr>)"
  using assms
  by (simp add: run_analysis_background_def Let_def split_def get_pipeline_service_db)


text \<open>When every message can be printed, no failure on an image fails the job.\<close>

lemma image_batch_quiet:
  "print_error env = quiet \<Longrightarrow> \<exists>fs. image_batch env self p = Inr fs"
  by (auto simp add: image_batch_def except_handler_def py_print_def quiet_def
      split: sum.splits)

lemma analyze_images_quiet:
  assumes "print_error env = quiet"
  shows "fst (analyze_images env self paths) =
           Inr (count_faces new_aggregated (concat (map (batch_faces env self) paths)))"
  using image_batch_quiet [OF assms]
  by (simp add: analyze_images_def analyze_loop_returns)

lemma run_analysis_background_quiet:
  assumes "db s aid = Some a" "print_error env = quiet"
  shows "\<exists>a'. db (run_analysis_background env t1 t2 aid paths s) aid = Some a' \<and>
           status a' = ''completed'' \<and>
           json_result a' =
             ResultObject (count_faces new_aggregated
               (concat (map (batch_faces env (fst (get_pipeline_service s))) paths)))"
  using run_analysis_background_completed [OF assms(1) analyze_images_quiet [OF assms(2)]]
  by simp


section \<open>Starting a job twice, and a pipeline that cannot be loaded\<close>

text \<open>
  C1. The claim asks that \<open>start\<close> claims a job by one atomic compare-and-swap, so that
  of several callers exactly one is accepted. The handler only reads the status; the
  status \<open>processing\<close> is written later, by the background task. Evaluated on a pending
  job with two images: the first call is accepted and leaves the row \<open>pending\<close>, the
  second call, made before the first task has run, is accepted as well, and the task list
  then holds two runs of the pipeline for the same job.
\<close>

theorem double_start_both_accepted:
  "fst (start_analysis ''job'' (sample_state ''pending'')) =
     Inr \<lparr>response_analysis_id = ''job'', response_status = ''processing'',
          message = ''Analysis started for 2 images. Poll /api/result/job for results.''\<rparr> \<and>
   db (snd (start_analysis ''job'' (sample_state ''pending''))) ''job'' =
     Some (sample_job ''pending'') \<and>
   fst (start_analysis ''job'' (snd (start_analysis ''job'' (sample_state ''pending'')))) =
     Inr \<lparr>response_analysis_id = ''job'', response_status = ''processing'',
          message = ''Analysis started for 2 images. Poll /api/result/job for results.''\<rparr> \<and>
   tasks (snd (start_analysis ''job'' (snd (start_analysis ''job'' (sample_state ''pending''))))) =
     [(''job'', [''a.jpg'', ''b.jpg'']), (''job'', [''a.jpg'', ''b.jpg''])]"
  by (simp add: start_analysis_def sample_state_def sample_job_def loads_image_paths_def
      str_nat.simps Let_def)

text \<open>
  C3. The claim asks that a pipeline which cannot be initialised ends the job as
  \<open>failed\<close> with the reason stored. The pipeline is loaded on first use, inside the
  \<open>try\<close> of the loop over the images, so the exception of the constructor is handled
  like a failure of one image. Evaluated in a world where the constructor raises: the
  background task of the pending job leaves the row \<open>completed\<close> with the empty
  aggregate, which is not the row \<open>mark_failed\<close> would have written.
\<close>

theorem init_failure_completes_job:
  "ImagePipeline_init broken_world ''cpu'' = Inl ''model download failed'' \<and>
   tasks (snd (start_analysis ''job'' (sample_state ''pending''))) =
     [(''job'', [''a.jpg'', ''b.jpg''])] \<and>
   db (run_next_task broken_world 1 2 (snd (start_analysis ''job'' (sample_state ''pending''))))
      ''job'' =
     Some ((sample_job ''completed'')\<lparr>json_result := ResultObject new_aggregated,
                                        updated_at := 2\<rparr>) \<and>
   db (run_next_task broken_world 1 2 (snd (start_analysis ''job'' (sample_state ''pending''))))
      ''job'' \<noteq>
     db (mark_failed 2 ''job'' ''model download failed''
          (snd (start_analysis ''job'' (sample_state ''pending'')))) ''job''"
proof -
  have s: "snd (start_analysis ''job'' (sample_state ''pending'')) =
           (sample_state ''pending'')\<lparr>tasks := [(''job'', [''a.jpg'', ''b.jpg''])]\<rparr>"
    by (simp add: start_analysis_def sample_state_def sample_job_def loads_image_paths_def
        Let_def)
  have a: "fst (analyze_images broken_world \<lparr>device = ''cpu'', loaded_pipeline = None\<rparr>
                  [''a.jpg'', ''b.jpg'']) = Inr new_aggregated"
    by (simp add: analyze_images_def broken_world_def pipeline_def py_print_def quiet_def
        except_handler_def)
  have g: "fst (get_pipeline_service
                  ((sample_state ''pending'')\<lparr>tasks := []\<rparr>)) =
           \<lparr>device = ''cpu'', loaded_pipeline = None\<rparr>"
    by (simp add: get_pipeline_service_def sample_state_def Let_def)
  have d: "db ((sample_state ''pending'')\<lparr>tasks := []\<rparr>) ''job'' = Some (sample_job ''pending'')"
    by (simp add: sample_state_def)
  have r: "db (run_next_task broken_world 1 2
                ((sample_state ''pending'')\<lparr>tasks := [(''job'', [''a.jpg'', ''b.jpg''])]\<rparr>)) ''job'' =
     Some ((sample_job ''completed'')\<lparr>json_result := ResultObject new_aggregated,
                                        updated_at := 2\<rparr>)"
    using run_analysis_background_completed [OF d, of broken_world "[''a.jpg'', ''b.jpg'']"
        new_aggregated 1 2] a
    by (simp add: run_next_task_def g sample_job_def)
  show ?thesis
    unfolding s r
    by (simp add: broken_world_def mark_failed_def sample_state_def sample_job_def)
qed

section \<open>Creating a job\<close>

lemma save_files_ok:
  "(\<And>f. f \<in> set files \<Longrightarrow> write_error env (path_str (truediv up (filename f))) = None) \<Longrightarrow>
     save_files env up files acc =
       Inr (acc @ map (\<lambda>f. path_str (truediv up (filename f))) files)"
  by (induction files arbitrary: acc) (simp_all add: Let_def)

lemma upload_images_invalid:
  assumes "files \<noteq> []" "find (\<lambda>f. \<not> validate_image (filename f)) files = Some f"
  shows "upload_images env files s =
           (Inl (HTTPException 400 (''Invalid file type: '' @ filename f @ ''. Allowed: '' @
                  str_set (set_order env))), s)"
  using assms by (simp add: upload_images_def)

lemmas suffix_eval = validate_image_def path_suffix_def path_name_def Path_def
  ALLOWED_EXTENSIONS_def lower_def lower_char_def ascii_uppercase_def ascii_lowercase_def

text \<open>
  C7, as stated: every non-empty manifest yields a new pending job. The handler checks
  the extension of every file name first, so a non-empty upload holding \<open>notes.txt\<close> is
  answered with the error 400 and no row is written.
\<close>

theorem create_rejects_other_files:
  "[\<lparr>filename = ''notes.txt'', content = ''hello''\<rparr>] \<noteq> [] \<and>
   upload_images sample_upload_env [\<lparr>filename = ''notes.txt'', content = ''hello''\<rparr>]
       (sample_state ''pending'') =
     (Inl (HTTPException 400
        ''Invalid file type: notes.txt. Allowed: {'.png', '.jpg', '.webp', '.jpeg', '.bmp'}''),
      sample_state ''pending'')"
  by (simp add: upload_images_def suffix_eval sample_upload_env_def str_set_def py_repr_def)

text \<open>
  C7, amended. An empty upload is answered with the error 400 "No files provided" and
  leaves the state as it was. A non-empty upload in which every file name has an allowed
  image extension creates, when the directory and the files can be written and the new id
  is not in the table, exactly one new row under that id: status \<open>pending\<close>, the empty
  JSON object as result, and the saved paths in upload order. A non-empty upload with a
  file name of another extension is answered with an error 400 and leaves the state as
  it was.
\<close>

theorem create_job:
  "upload_images env [] s = (Inl (HTTPException 400 ''No files provided''), s) \<and>
   (files \<noteq> [] \<and> (\<forall>f\<in>set files. validate_image (filename f)) \<and>
    mkdir_error env (path_str (truediv (Path (UPLOAD_DIR env)) (uuid4 env))) = None \<and>
    (\<forall>f\<in>set files.
       write_error env
         (path_str (truediv (truediv (Path (UPLOAD_DIR env)) (uuid4 env)) (filename f))) = None) \<and>
    uuid4 env \<notin> dom (db s) \<longrightarrow>
      (\<exists>r. upload_images env files s =
         (Inr r,
          s\<lparr>db := (db s)(uuid4 env \<mapsto>
               \<lparr>analysis_id = uuid4 env, json_result = EmptyObject,
                image_paths =
                  Some (map (\<lambda>f. path_str (truediv (truediv (Path (UPLOAD_DIR env)) (uuid4 env))
                                              (filename f)))
                         files),
                status = ''pending'', created_at = utcnow env, updated_at = utcnow env\<rparr>)\<rparr>) \<and>
         upload_analysis_id r = uuid4 env \<and> image_count r = length files)) \<and>
   (bad \<noteq> [] \<and> \<not> (\<forall>f\<in>set bad. validate_image (filename f)) \<longrightarrow>
      (\<exists>d. upload_images env bad s = (Inl (HTTPException 400 d), s)))"
proof (intro conjI impI)
  show "upload_images env [] s = (Inl (HTTPException 400 ''No files provided''), s)"
    by (simp add: upload_images_def)
next
  let ?up = "truediv (Path (UPLOAD_DIR env)) (uuid4 env)"
  assume h: "files \<noteq> [] \<and> (\<forall>f\<in>set files. validate_image (filename f)) \<and>
    mkdir_error env (path_str ?up) = None \<and>
    (\<forall>f\<in>set files. write_error env (path_str (truediv ?up (filename f))) = None) \<and>
    uuid4 env \<notin> dom (db s)"
  then have f: "find (\<lambda>f. \<not> validate_image (filename f)) files = None"
    by (simp add: find_None_iff)
  from h have sv: "save_files env ?up files [] =
                     Inr (map (\<lambda>f. path_str (truediv ?up (filename f))) files)"
    by (simp add: save_files_ok)
  from h have nd: "db s (uuid4 env) = None"
    by (simp add: domIff)
  from h f sv nd
  show "\<exists>r. upload_images env files s =
         (Inr r,
          s\<lparr>db := (db s)(uuid4 env \<mapsto>
               \<lparr>analysis_id = uuid4 env, json_result = EmptyObject,
                image_paths = Some (map (\<lambda>f. path_str (truediv ?up (filename f))) files),
                status = ''pending'', created_at = utcnow env, updated_at = utcnow env\<rparr>)\<rparr>) \<and>
         upload_analysis_id r = uuid4 env \<and> image_count r = length files"
    by (simp add: upload_images_def Let_def domIff)
next
  assume h: "bad \<noteq> [] \<and> \<not> (\<forall>f\<in>set bad. validate_image (filename f))"
  then obtain f where "find (\<lambda>f. \<not> validate_image (filename f)) bad = Some f"
    by (cases "find (\<lambda>f. \<not> validate_image (filename f)) bad") (auto simp add: find_None_iff)
  with h show "\<exists>d. upload_images env bad s = (Inl (HTTPException 400 d), s)"
    by (simp add: upload_images_invalid)
qed

theorem create_job_witness:
  "[\<lparr>filename = ''./a.jpg'', content = ''x''\<rparr>, \<lparr>filename = ''b.PNG'', content = ''y''\<rparr>] \<noteq> [] \<and>
   list_all (\<lambda>f. validate_image (filename f))
     [\<lparr>filename = ''./a.jpg'', content = ''x''\<rparr>, \<lparr>filename = ''b.PNG'', content = ''y''\<rparr>] \<and>
   mkdir_error sample_upload_env
     (path_str (truediv (Path (UPLOAD_DIR sample_upload_env)) (uuid4 sample_upload_env))) = None \<and>
   list_all (\<lambda>f. write_error sample_upload_env
        (path_str (truediv (truediv (Path (UPLOAD_DIR sample_upload_env))
                     (uuid4 sample_upload_env)) (filename f))) = None)
     [\<lparr>filename = ''./a.jpg'', content = ''x''\<rparr>, \<lparr>filename = ''b.PNG'', content = ''y''\<rparr>] \<and>
   uuid4 sample_upload_env \<notin> dom (db (sample_state ''completed'')) \<and>
   db (snd (upload_images sample_upload_env
              [\<lparr>filename = ''./a.jpg'', content = ''x''\<rparr>, \<lparr>filename = ''b.PNG'', content = ''y''\<rparr>]
              (sample_state ''completed''))) ''new'' =
     Some \<lparr>analysis_id = ''new'', json_result = EmptyObject,
           image_paths = Some [''/srv/storage/uploads/new/a.jpg'',
                               ''/srv/storage/uploads/new/b.PNG''],
           status = ''pending'', created_at = 7, updated_at = 7\<rparr> \<and>
   [\<lparr>filename = ''a.jpg'', content = ''x''\<rparr>, \<lparr>filename = ''notes.txt'', content = ''y''\<rparr>] \<noteq> [] \<and>
   \<not> list_all (\<lambda>f. validate_image (filename f))
     [\<lparr>filename = ''a.jpg'', content = ''x''\<rparr>, \<lparr>filename = ''notes.txt'', content = ''y''\<rparr>] \<and>
   snd (upload_images sample_upload_env
          [\<lparr>filename = ''a.jpg'', content = ''x''\<rparr>, \<lparr>filename = ''notes.txt'', content = ''y''\<rparr>]
          (sample_state ''completed'')) = sample_state ''completed'' \<and>
   upload_images sample_upload_env [] (sample_state ''completed'') =
     (Inl (HTTPException 400 ''No files provided''), sample_state ''completed'')"
proof -
  let ?good = "[\<lparr>filename = ''./a.jpg'', content = ''x''\<rparr>, \<lparr>filename = ''b.PNG'', content = ''y''\<rparr>]"
  let ?bad = "[\<lparr>filename = ''a.jpg'', content = ''x''\<rparr>,
               \<lparr>filename = ''notes.txt'', content = ''y''\<rparr>]"
  let ?env = sample_upload_env
  let ?s = "sample_state ''completed''"
  have v0: "validate_image ''./a.jpg''" by (simp add: suffix_eval)
  have v1: "validate_image ''a.jpg''" by (simp add: suffix_eval)
  have v2: "validate_image ''b.PNG''" by (simp add: suffix_eval)
  have v3: "\<not> validate_image ''notes.txt''" by (simp add: suffix_eval)
  have h1: "\<forall>f\<in>set ?good. validate_image (filename f)" using v0 v2 by simp
  have h2: "mkdir_error ?env (path_str (truediv (Path (UPLOAD_DIR ?env)) (uuid4 ?env))) = None"
    by (simp add: sample_upload_env_def)
  have h3: "\<forall>f\<in>set ?good.
      write_error ?env
        (path_str (truediv (truediv (Path (UPLOAD_DIR ?env)) (uuid4 ?env)) (filename f))) = None"
    by (simp add: sample_upload_env_def)
  have h4: "uuid4 ?env \<notin> dom (db ?s)"
    by (simp add: sample_upload_env_def sample_state_def)
  have h5: "\<not> (\<forall>f\<in>set ?bad. validate_image (filename f))" using v3 by simp
  note inst = create_job [of ?env ?s ?good ?bad]
  from inst h1 h2 h3 h4 obtain r where
    g: "upload_images ?env ?good ?s =
         (Inr r,
          ?s\<lparr>db := (db ?s)(uuid4 ?env \<mapsto>
               \<lparr>analysis_id = uuid4 ?env, json_result = EmptyObject,
                image_paths =
                  Some (map (\<lambda>f. path_str (truediv (truediv (Path (UPLOAD_DIR ?env)) (uuid4 ?env))
                                              (filename f)))
                         ?good),
                status = ''pending'', created_at = utcnow ?env, updated_at = utcnow ?env\<rparr>)\<rparr>)"
    by blast
  have c1: "db (snd (upload_images ?env ?good ?s)) ''new'' =
     Some \<lparr>analysis_id = ''new'', json_result = EmptyObject,
           image_paths = Some [''/srv/storage/uploads/new/a.jpg'',
                               ''/srv/storage/uploads/new/b.PNG''],
           status = ''pending'', created_at = 7, updated_at = 7\<rparr>"
    unfolding g by (simp add: sample_upload_env_def path_str_def truediv_def Path_def Let_def)
  from inst h5 obtain d where "upload_images ?env ?bad ?s = (Inl (HTTPException 400 d), ?s)"
    by blast
  then have c2: "snd (upload_images ?env ?bad ?s) = ?s" by simp
  from inst have c3: "upload_images ?env [] ?s = (Inl (HTTPException 400 ''No files provided''), ?s)"
    by blast
  show ?thesis
    using v0 v1 v2 v3 h2 h4 c1 c2 c3 by (simp add: sample_upload_env_def)
qed

section \<open>The faces the pipeline returns\<close>

text \<open>Every age group the pipeline writes into a face record is one of the four buckets.\<close>

lemma map_age_to_group_bucket: "map_age_to_group age_label \<in> age_buckets"
  by (simp add: map_age_to_group_def age_mapping_def age_buckets_def)

lemma map_age_to_group_default:
  "age_mapping age_label = None \<Longrightarrow> map_age_to_group age_label = ''40_plus''"
  by (simp add: map_age_to_group_def)

lemma classify_age_bucket: "classify_age pl c = Inr a \<Longrightarrow> a \<in> age_buckets"
  by (auto simp add: classify_age_def map_age_to_group_bucket split: sum.splits)

lemma classify_faces_ages:
  "classify_faces pl img ds acc k = Inr (fs, n) \<Longrightarrow> \<forall>f\<in>set acc. age_group f \<in> age_buckets \<Longrightarrow>
     \<forall>f\<in>set fs. age_group f \<in> age_buckets"
proof (induction ds arbitrary: acc k)
  case Nil
  then show ?case by simp
next
  case (Cons d ds)
  from Cons.prems(1) obtain c where c: "crop pl img (bbox d) = Inr c"
    by (auto split: sum.splits)
  show ?case
  proof (cases "width pl c < 10 \<or> height pl c < 10")
    case True
    with Cons.prems c have "classify_faces pl img ds acc (k + 1) = Inr (fs, n)" by simp
    from Cons.IH [OF this Cons.prems(2)] show ?thesis .
  next
    case False
    with Cons.prems(1) c obtain g a where
      g: "classify_gender pl c = Inr g" and a: "classify_age pl c = Inr a" and
      r: "classify_faces pl img ds
            (acc @ [\<lparr>bbox = bbox d, confidence = confidence d, gender = g, age_group = a\<rparr>]) k
            = Inr (fs, n)"
      by (auto split: sum.splits)
    have "\<forall>f\<in>set (acc @ [\<lparr>bbox = bbox d, confidence = confidence d, gender = g, age_group = a\<rparr>]).
            age_group f \<in> age_buckets"
      using Cons.prems(2) classify_age_bucket [OF a] by simp
    from Cons.IH [OF r this] show ?thesis .
  qed
qed

text \<open>What \<open>process_image\<close> returns comes from the loop over the detections.\<close>

lemma process_image_Inr:
  assumes "process_image pr pl p = Inr fs"
  shows "\<exists>ds. detect_faces pr pl p = Inr ds \<and>
           (ds = [] \<and> fs = [] \<or>
            ds \<noteq> [] \<and> (\<exists>img n. Image_open pl p = Inr img \<and>
                              classify_faces pl img ds [] 0 = Inr (fs, n)))"
  using assms
  by (auto simp add: process_image_def split: sum.splits if_splits prod.splits)

lemma process_image_ages:
  assumes "process_image pr pl p = Inr fs"
  shows "\<forall>f\<in>set fs. age_group f \<in> age_buckets"
proof -
  from process_image_Inr [OF assms] obtain ds where
    "ds = [] \<and> fs = [] \<or>
     (\<exists>img n. Image_open pl p = Inr img \<and> classify_faces pl img ds [] 0 = Inr (fs, n))"
    by blast
  then show ?thesis
  proof
    assume "ds = [] \<and> fs = []"
    then show ?thesis by simp
  next
    assume "\<exists>img n. Image_open pl p = Inr img \<and> classify_faces pl img ds [] 0 = Inr (fs, n)"
    then obtain img n where "classify_faces pl img ds [] 0 = Inr (fs, n)" by blast
    from classify_faces_ages [OF this] show ?thesis by simp
  qed
qed

lemma batch_faces_ages:
  fixes env :: "('img, 'crop) world"
  shows "\<forall>f\<in>set (batch_faces env self p). age_group f \<in> age_buckets"
proof (cases "image_batch env self p")
  case (Inl e)
  then show ?thesis by (simp add: batch_faces_def)
next
  case (Inr fs)
  then have "fs = [] \<or>
      (\<exists>pl :: ('img, 'crop) ImagePipeline. process_image (print_error env) pl p = Inr fs)"
    by (auto simp add: image_batch_def split: if_splits sum.splits)
  then have "\<forall>f\<in>set fs. age_group f \<in> age_buckets"
    by (auto dest: process_image_ages)
  with Inr show ?thesis by (simp add: batch_faces_def)
qed

text \<open>
  C9. For every label, \<open>map_age_to_group\<close> returns one of the four buckets, and
  \<open>40_plus\<close> for a label outside its table. Hence every face record \<open>process_image\<close>
  returns has one of the four age groups, its entry exists in every aggregate counted
  from the empty one (the branch that passes over an unknown age group is not taken for
  it), and in every aggregate \<open>analyze_images\<close> returns the four age counts sum to
  \<open>total_faces\<close>.
\<close>

theorem age_bucket_always_recognised:
  "map_age_to_group age_label \<in> age_buckets \<and>
   (age_mapping age_label = None \<longrightarrow> map_age_to_group age_label = ''40_plus'') \<and>
   (process_image pr pl p = Inr fs \<longrightarrow>
      (\<forall>f\<in>set fs. age_group f \<in> age_buckets \<and>
                   age_group_counts (count_faces new_aggregated xs) (age_group f) \<noteq> None)) \<and>
   (fst (analyze_images env self paths) = Inr agg \<longrightarrow>
      (\<exists>a1 a2 a3 a4.
         age_group_counts agg ''10s'' = Some a1 \<and>
         age_group_counts agg ''20s'' = Some a2 \<and>
         age_group_counts agg ''30s'' = Some a3 \<and>
         age_group_counts agg ''40_plus'' = Some a4 \<and>
         a1 + a2 + a3 + a4 = total_faces agg))"
proof (intro conjI impI)
  show "map_age_to_group age_label \<in> age_buckets" by (rule map_age_to_group_bucket)
next
  assume "age_mapping age_label = None"
  then show "map_age_to_group age_label = ''40_plus''" by (rule map_age_to_group_default)
next
  assume "process_image pr pl p = Inr fs"
  then have "\<forall>f\<in>set fs. age_group f \<in> age_buckets" by (rule process_image_ages)
  then show "\<forall>f\<in>set fs. age_group f \<in> age_buckets \<and>
                   age_group_counts (count_faces new_aggregated xs) (age_group f) \<noteq> None"
    by (simp add: counted_age_dom)
next
  let ?fs = "concat (map (batch_faces env self) paths)"
  assume "fst (analyze_images env self paths) = Inr agg"
  then have r: "agg = count_faces new_aggregated ?fs"
    by (simp add: analyze_images_def analyze_loop_returns)
  have "\<forall>x\<in>set ?fs. age_group x \<in> age_buckets"
    using batch_faces_ages by auto
  with counted_age [of ?fs] show "\<exists>a1 a2 a3 a4.
      age_group_counts agg ''10s'' = Some a1 \<and>
      age_group_counts agg ''20s'' = Some a2 \<and>
      age_group_counts agg ''30s'' = Some a3 \<and>
      age_group_counts agg ''40_plus'' = Some a4 \<and>
      a1 + a2 + a3 + a4 = total_faces agg"
    unfolding r by blast
qed

theorem age_bucket_always_recognised_witness:
  "age_mapping ''15-20'' = None \<and>
   map_age_to_group ''15-20'' = ''40_plus'' \<and>
   process_image quiet sample_pipeline ''b.jpg'' =
     Inr [\<lparr>bbox = (10, 10, 60, 60), confidence = 1, gender = ''male'', age_group = ''20s''\<rparr>] \<and>
   list_all (\<lambda>f. age_group f \<in> age_buckets \<and>
                  age_group_counts (count_faces new_aggregated []) (age_group f) \<noteq> None)
     [\<lparr>bbox = (10, 10, 60, 60), confidence = 1, gender = ''male'', age_group = ''20s''\<rparr>] \<and>
   fst (analyze_images sample_world sample_service [''a.jpg'', ''b.jpg'']) =
     Inr (count_faces new_aggregated
            (faces_a @ [\<lparr>bbox = (10, 10, 60, 60), confidence = 1, gender = ''male'',
                         age_group = ''20s''\<rparr>])) \<and>
   (\<exists>a1 a2 a3 a4.
      age_group_counts (count_faces new_aggregated
            (faces_a @ [\<lparr>bbox = (10, 10, 60, 60), confidence = 1, gender = ''male'',
                         age_group = ''20s''\<rparr>])) ''10s'' = Some a1 \<and>
      age_group_counts (count_faces new_aggregated
            (faces_a @ [\<lparr>bbox = (10, 10, 60, 60), confidence = 1, gender = ''male'',
                         age_group = ''20s''\<rparr>])) ''20s'' = Some a2 \<and>
      age_group_counts (count_faces new_aggregated
            (faces_a @ [\<lparr>bbox = (10, 10, 60, 60), confidence = 1, gender = ''male'',
                         age_group = ''20s''\<rparr>])) ''30s'' = Some a3 \<and>
      age_group_counts (count_faces new_aggregated
            (faces_a @ [\<lparr>bbox = (10, 10, 60, 60), confidence = 1, gender = ''male'',
                         age_group = ''20s''\<rparr>])) ''40_plus'' = Some a4 \<and>
      a1 + a2 + a3 + a4 =
        total_faces (count_faces new_aggregated
            (faces_a @ [\<lparr>bbox = (10, 10, 60, 60), confidence = 1, gender = ''male'',
                         age_group = ''20s''\<rparr>])))"
proof -
  let ?fs = "[\<lparr>bbox = (10, 10, 60, 60), confidence = 1, gender = ''male'', age_group = ''20s''\<rparr>]"
  let ?agg = "count_faces new_aggregated (faces_a @ ?fs)"
  have h1: "age_mapping ''15-20'' = None"
    by (simp add: age_mapping_def)
  note h2 = sample_process_b
  note h3 = sample_analyze_ab
  note inst = age_bucket_always_recognised [of "''15-20''" quiet sample_pipeline "''b.jpg''" ?fs "[]"
      sample_world sample_service "[''a.jpg'', ''b.jpg'']" ?agg]
  from inst h1 have c1: "map_age_to_group ''15-20'' = ''40_plus''"
    by blast
  from inst h2 have c2: "\<forall>f\<in>set ?fs. age_group f \<in> age_buckets \<and>
      age_group_counts (count_faces new_aggregated []) (age_group f) \<noteq> None"
    by blast
  from inst h3 have c3: "\<exists>a1 a2 a3 a4.
      age_group_counts ?agg ''10s'' = Some a1 \<and> age_group_counts ?agg ''20s'' = Some a2 \<and>
      age_group_counts ?agg ''30s'' = Some a3 \<and> age_group_counts ?agg ''40_plus'' = Some a4 \<and>
      a1 + a2 + a3 + a4 = total_faces ?agg"
    by blast
  from c2 have c2': "list_all (\<lambda>f. age_group f \<in> age_buckets \<and>
      age_group_counts (count_faces new_aggregated []) (age_group f) \<noteq> None) ?fs"
    by (simp add: list_all_iff)
  from h1 h2 h3 c1 c2' c3 show ?thesis by blast
qed

text \<open>The face records are the detections the size test keeps, in their order.\<close>

lemma classify_faces_kept:
  "classify_faces pl img ds acc k = Inr (fs, n) \<Longrightarrow>
     map (\<lambda>f. (bbox f, confidence f)) fs =
       map (\<lambda>f. (bbox f, confidence f)) acc @
       map (\<lambda>d. (bbox d, confidence d)) (filter (keeps pl img) ds)"
proof (induction ds arbitrary: acc k)
  case Nil
  then show ?case by simp
next
  case (Cons d ds)
  from Cons.prems obtain c where c: "crop pl img (bbox d) = Inr c"
    by (auto split: sum.splits)
  show ?case
  proof (cases "width pl c < 10 \<or> height pl c < 10")
    case True
    with Cons.prems c have "classify_faces pl img ds acc (k + 1) = Inr (fs, n)" by simp
    from Cons.IH [OF this] True c show ?thesis by (simp add: keeps_def)
  next
    case False
    with Cons.prems c obtain g a where
      r: "classify_faces pl img ds
            (acc @ [\<lparr>bbox = bbox d, confidence = confidence d, gender = g, age_group = a\<rparr>]) k
            = Inr (fs, n)"
      by (auto split: sum.splits)
    from Cons.IH [OF r] False c show ?thesis by (simp add: keeps_def)
  qed
qed

lemma process_image_kept:
  assumes "process_image pr pl p = Inr fs" "detect_faces pr pl p = Inr ds"
    "Image_open pl p = Inr img"
  shows "map (\<lambda>f. (bbox f, confidence f)) fs =
           map (\<lambda>d. (bbox d, confidence d)) (filter (keeps pl img) ds)"
proof -
  from process_image_Inr [OF assms(1)] assms(2,3)
  have "ds = [] \<and> fs = [] \<or> (\<exists>n. classify_faces pl img ds [] 0 = Inr (fs, n))"
    by auto
  then show ?thesis
  proof
    assume "ds = [] \<and> fs = []"
    then show ?thesis by simp
  next
    assume "\<exists>n. classify_faces pl img ds [] 0 = Inr (fs, n)"
    then obtain n where "classify_faces pl img ds [] 0 = Inr (fs, n)" by blast
    from classify_faces_kept [OF this] show ?thesis by simp
  qed
qed

lemma process_image_length:
  assumes "process_image pr pl p = Inr fs" "detect_faces pr pl p = Inr ds"
  shows "length fs \<le> length ds"
proof -
  from process_image_Inr [OF assms(1)] assms(2)
  have "ds = [] \<and> fs = [] \<or> (\<exists>img n. classify_faces pl img ds [] 0 = Inr (fs, n))"
    by auto
  then show ?thesis
  proof
    assume "ds = [] \<and> fs = []"
    then show ?thesis by simp
  next
    assume "\<exists>img n. classify_faces pl img ds [] 0 = Inr (fs, n)"
    then obtain img n where "classify_faces pl img ds [] 0 = Inr (fs, n)" by blast
    from classify_faces_kept [OF this]
    have "map (\<lambda>f. (bbox f, confidence f)) fs =
            map (\<lambda>d. (bbox d, confidence d)) (filter (keeps pl img) ds)" by simp
    then have "length fs = length (filter (keeps pl img) ds)"
      by (rule map_eq_imp_length_eq)
    then show ?thesis by simp
  qed
qed

lemma sample_detect_a: "detect_faces quiet sample_pipeline ''a.jpg'' = Inr detections_a"
  by (simp add: pipe_eval detections_a_def)

text \<open>
  C10. When \<open>process_image\<close> returns, its face records are, box by box and in order,
  the detections whose crop is at least 10 pixels wide and 10 pixels high; a detection
  whose crop is narrower or shorter is not kept, so it adds nothing to \<open>total_faces\<close>,
  which grows by the number of kept detections only. The number of face records is at
  most the number of detections, and it is strictly smaller for the sample image, where 3
  faces are detected and 2 are returned.
\<close>

theorem small_faces_excluded:
  "(process_image pr pl p = Inr fs \<and> detect_faces pr pl p = Inr ds \<and> Image_open pl p = Inr img \<longrightarrow>
      map (\<lambda>f. (bbox f, confidence f)) fs =
        map (\<lambda>d. (bbox d, confidence d)) (filter (keeps pl img) ds) \<and>
      total_faces (count_faces agg fs) =
        total_faces agg + int (length (filter (keeps pl img) ds))) \<and>
   (crop pl img (bbox d) = Inr c \<and> (width pl c < 10 \<or> height pl c < 10) \<longrightarrow>
      \<not> keeps pl img d) \<and>
   (process_image pr pl p = Inr fs \<and> detect_faces pr pl p = Inr ds \<longrightarrow> length fs \<le> length ds) \<and>
   (\<exists>ds' fs'. detect_faces quiet sample_pipeline ''a.jpg'' = Inr ds' \<and>
              process_image quiet sample_pipeline ''a.jpg'' = Inr fs' \<and>
              length fs' < length ds')"
proof (intro conjI impI)
  assume h: "process_image pr pl p = Inr fs \<and> detect_faces pr pl p = Inr ds \<and>
             Image_open pl p = Inr img"
  then show k: "map (\<lambda>f. (bbox f, confidence f)) fs =
        map (\<lambda>d. (bbox d, confidence d)) (filter (keeps pl img) ds)"
    by (blast intro: process_image_kept)
  have "length fs = length (filter (keeps pl img) ds)"
    using k by (rule map_eq_imp_length_eq)
  then show "total_faces (count_faces agg fs) =
        total_faces agg + int (length (filter (keeps pl img) ds))"
    by (simp add: count_faces_total)
next
  assume "crop pl img (bbox d) = Inr c \<and> (width pl c < 10 \<or> height pl c < 10)"
  then show "\<not> keeps pl img d" by (auto simp add: keeps_def)
next
  assume "process_image pr pl p = Inr fs \<and> detect_faces pr pl p = Inr ds"
  then show "length fs \<le> length ds" by (blast intro: process_image_length)
next
  show "\<exists>ds' fs'. detect_faces quiet sample_pipeline ''a.jpg'' = Inr ds' \<and>
              process_image quiet sample_pipeline ''a.jpg'' = Inr fs' \<and>
              length fs' < length ds'"
    unfolding sample_detect_a sample_process_a
    by (simp add: detections_a_def faces_a_def)
qed

theorem small_faces_excluded_witness:
  "process_image quiet sample_pipeline ''a.jpg'' = Inr faces_a \<and>
   detect_faces quiet sample_pipeline ''a.jpg'' = Inr detections_a \<and>
   Image_open sample_pipeline ''a.jpg'' = Inr () \<and>
   crop sample_pipeline () (bbox (detections_a ! 2)) = Inr (5, 40) \<and>
   width sample_pipeline (5, 40) < 10 \<and>
   \<not> keeps sample_pipeline () (detections_a ! 2) \<and>
   map (\<lambda>f. (bbox f, confidence f)) faces_a =
     map (\<lambda>d. (bbox d, confidence d)) (filter (keeps sample_pipeline ()) detections_a) \<and>
   total_faces (count_faces new_aggregated faces_a) =
     total_faces new_aggregated + int (length (filter (keeps sample_pipeline ()) detections_a)) \<and>
   length faces_a \<le> length detections_a \<and>
   length faces_a = 2 \<and> length detections_a = 3"
proof -
  note h1 = sample_process_a
  note h2 = sample_detect_a
  have h3: "Image_open sample_pipeline ''a.jpg'' = Inr ()"
    by (simp add: sample_pipeline_def)
  have h4: "crop sample_pipeline () (bbox (detections_a ! 2)) = Inr (5, 40)"
    by (simp add: sample_pipeline_def box_crop_def detections_a_def)
  have h5: "width sample_pipeline (5, 40) < 10"
    by (simp add: sample_pipeline_def)
  note inst = small_faces_excluded [of quiet sample_pipeline "''a.jpg''" faces_a detections_a "()"
      new_aggregated "detections_a ! 2" "(5, 40)"]
  from inst h1 h2 h3 have c1:
    "map (\<lambda>f. (bbox f, confidence f)) faces_a =
       map (\<lambda>d. (bbox d, confidence d)) (filter (keeps sample_pipeline ()) detections_a)"
    "total_faces (count_faces new_aggregated faces_a) =
       total_faces new_aggregated + int (length (filter (keeps sample_pipeline ()) detections_a))"
    by blast+
  from inst h4 h5 have c2: "\<not> keeps sample_pipeline () (detections_a ! 2)"
    by blast
  from inst h1 h2 have c3: "length faces_a \<le> length detections_a"
    by blast
  have l: "length faces_a = 2" "length detections_a = 3"
    by (simp_all add: faces_a_def detections_a_def)
  show ?thesis
    using h1 h2 h3 h4 h5 c1 c2 c3 l by simp
qed

end
